theory Spec2Isabelle
  imports Main
begin

section \<open>The JSON store of the server\<close>

text \<open>
  The definitions follow the server program with the admin routes, the second of the two
  programs in \<^verbatim>\<open>src/unnamed/part_004\<close>; the handlers for posts, votes, bookmarks and the
  owner's delete are the same in the first.

  The server keeps one snapshot (\<^verbatim>\<open>db.json\<close>) holding six arrays, and the list of banned
  identities in a second file (\<^verbatim>\<open>banned.json\<close>). Every handler reads the snapshot with
  \<^verbatim>\<open>readDB\<close>, changes it in memory and writes it back with \<^verbatim>\<open>writeDB\<close>; \<^verbatim>\<open>readDB\<close> puts
  the empty array in the place of a missing or malformed one, so every field of the snapshot
  a handler works on is a list, with no further condition on its elements. A handler is
  modelled as a function from the snapshot it read to its response and the snapshot it leaves
  on disk; a handler that returns before \<^verbatim>\<open>writeDB\<close> leaves the snapshot it read.
  Identifiers, timestamps and vote types are JSON strings. Values the handlers draw from
  their environment (\<^verbatim>\<open>uuidv4()\<close>, \<^verbatim>\<open>new Date().toISOString()\<close>, \<^verbatim>\<open>Math.random()\<close>, the
  fingerprint \<^verbatim>\<open>getVoterId(req)\<close>) are parameters. Reading and writing the two files is
  taken to succeed: the answer 500 of a handler whose file operation throws is not modelled.
  The answer 500 of the two delete handlers, whose loop over the media of a post throws on a
  \<^verbatim>\<open>null\<close> element, is.
\<close>

record mediafile =
  fileUrl :: string
  fileName :: string
  fileType :: string
  fileSize :: nat

text \<open>
  \<^verbatim>\<open>POST /api/posts\<close> stores the \<^verbatim>\<open>media\<close> array of the request as it comes. An element
  is \<open>None\<close> when it is \<^verbatim>\<open>null\<close>; an element with no \<^verbatim>\<open>fileUrl\<close> has the empty one.
\<close>

record post =
  post_id :: string
  post_content :: string
  post_tags :: "string list"
  post_media :: "mediafile option list"
  post_ownerId :: string
  post_timestamp :: string
  post_color :: nat

record comment =
  comment_id :: string
  comment_postId :: string
  comment_content :: string
  comment_timestamp :: string

record vote =
  vote_postId :: string
  vote_voterId :: string
  vote_type :: string
  vote_timestamp :: string

record bookmark =
  bookmark_postId :: string
  bookmark_userId :: string
  bookmark_timestamp :: string

text \<open>
  A report object as \<^verbatim>\<open>/api/posts/:id/report\<close> pushes it has the keys \<^verbatim>\<open>id\<close>, \<^verbatim>\<open>postId\<close>,
  \<^verbatim>\<open>reason\<close>, \<^verbatim>\<open>reportedBy\<close> and \<^verbatim>\<open>timestamp\<close>. \<open>report_status\<close> stands for a key
  \<^verbatim>\<open>status\<close>: it is \<open>None\<close> when the object has no such key (JavaScript reads it as
  \<^verbatim>\<open>undefined\<close>). No route of the server writes or reads that key.
\<close>

record report =
  report_id :: string
  report_postId :: string
  report_reason :: string
  report_reportedBy :: string
  report_timestamp :: string
  report_status :: "string option"

record db =
  posts :: "post list"
  comments :: "comment list"
  votes :: "vote list"
  bookmarks :: "bookmark list"
  users :: "string list"
  reports :: "report list"

text \<open>\<^verbatim>\<open>initializeDB\<close>: the snapshot \<^verbatim>\<open>readDB\<close> starts from when the file is missing or
  cannot be parsed.\<close>

definition initializeDB :: db where
  "initializeDB =
     \<lparr>posts = [], comments = [], votes = [], bookmarks = [], users = [], reports = []\<rparr>"

text \<open>The HTTP status of a failed request: 400, 403, 404, 500.\<close>

datatype error = InvalidArgument | Forbidden | NotFound | Internal

section \<open>Array operations of JavaScript\<close>

text \<open>\<^verbatim>\<open>Array.prototype.findIndex\<close>: the first index whose element satisfies the predicate;
  \<open>None\<close> stands for the result \<^verbatim>\<open>-1\<close>.\<close>

fun findIndex :: "('a \<Rightarrow> bool) \<Rightarrow> 'a list \<Rightarrow> nat option" where
  "findIndex P [] = None"
| "findIndex P (x # xs) = (if P x then Some 0 else map_option Suc (findIndex P xs))"

text \<open>\<^verbatim>\<open>xs.splice(i, 1)\<close>: the array without its element at index \<open>i\<close>.\<close>

definition splice1 :: "nat \<Rightarrow> 'a list \<Rightarrow> 'a list" where
  "splice1 i xs = take i xs @ drop (Suc i) xs"

section \<open>Casting a vote\<close>

record vote_response =
  resp_upvotes :: nat
  resp_downvotes :: nat
  resp_netVotes :: int
  resp_milestone :: "string option"
  resp_userVote :: "string option"

text \<open>The branch on \<^verbatim>\<open>existingVoteIndex\<close>: toggle off, change the vote, or push a new one.\<close>

definition updateVotes :: "string \<Rightarrow> string \<Rightarrow> string \<Rightarrow> string \<Rightarrow> vote list \<Rightarrow> vote list" where
  "updateVotes pid type voterId now vs =
     (case findIndex (\<lambda>v. vote_postId v = pid \<and> vote_voterId v = voterId) vs of
        Some existingVoteIndex \<Rightarrow>
          if vote_type (vs ! existingVoteIndex) = type
          then splice1 existingVoteIndex vs
          else vs[existingVoteIndex := (vs ! existingVoteIndex)\<lparr>vote_type := type\<rparr>]
      | None \<Rightarrow>
          vs @ [\<lparr>vote_postId = pid, vote_voterId = voterId, vote_type = type,
                 vote_timestamp = now\<rparr>])"

definition upvotesOf :: "string \<Rightarrow> vote list \<Rightarrow> nat" where
  "upvotesOf pid vs =
     length (filter (\<lambda>v. vote_type v = ''up'') (filter (\<lambda>v. vote_postId v = pid) vs))"

definition downvotesOf :: "string \<Rightarrow> vote list \<Rightarrow> nat" where
  "downvotesOf pid vs =
     length (filter (\<lambda>v. vote_type v = ''down'') (filter (\<lambda>v. vote_postId v = pid) vs))"

definition netVotesOf :: "string \<Rightarrow> vote list \<Rightarrow> int" where
  "netVotesOf pid vs = int (upvotesOf pid vs) - int (downvotesOf pid vs)"

text \<open>The three assignments to \<^verbatim>\<open>milestone\<close>, in the order of the source. The labels are
  written without the emoji that precedes each of them in the source.\<close>

definition milestoneOf :: "int \<Rightarrow> string option" where
  "milestoneOf netVotes =
     (let milestone = None;
          milestone = (if netVotes = 10 then Some ''Hot Post!'' else milestone);
          milestone = (if netVotes = 50 then Some ''Viral!'' else milestone);
          milestone = (if netVotes = 100 then Some ''Legendary!'' else milestone)
      in milestone)"

text \<open>\<^verbatim>\<open>db.votes.find(...)?.type || null\<close>: the type of the first vote of the pair; an empty
  string is falsy and gives \<^verbatim>\<open>null\<close>.\<close>

definition userVoteOf :: "string \<Rightarrow> string \<Rightarrow> vote list \<Rightarrow> string option" where
  "userVoteOf pid voterId vs =
     (case find (\<lambda>v. vote_postId v = pid \<and> vote_voterId v = voterId) vs of
        None \<Rightarrow> None
      | Some v \<Rightarrow> if vote_type v = [] then None else Some (vote_type v))"

text \<open>The handler of \<^verbatim>\<open>POST /api/posts/:id/vote\<close>. Its arguments are the post id, the type,
  the fingerprint of the voter and the timestamp, in the order the handler obtains them. A
  \<^verbatim>\<open>type\<close> that is absent or not a string fails the membership test like any string other
  than the two.\<close>

definition castVote :: "string \<Rightarrow> string \<Rightarrow> string \<Rightarrow> string \<Rightarrow> db \<Rightarrow> (error + vote_response) \<times> db" where
  "castVote pid type voterId now d =
     (if type \<notin> set [''up'', ''down''] then (Inl InvalidArgument, d)
      else case findIndex (\<lambda>p. post_id p = pid) (posts d) of
        None \<Rightarrow> (Inl NotFound, d)
      | Some postIndex \<Rightarrow>
          let vs = updateVotes pid type voterId now (votes d);
              upvotes = upvotesOf pid vs;
              downvotes = downvotesOf pid vs;
              netVotes = int upvotes - int downvotes
          in (Inr \<lparr>resp_upvotes = upvotes, resp_downvotes = downvotes,
                    resp_netVotes = netVotes, resp_milestone = milestoneOf netVotes,
                    resp_userVote = userVoteOf pid voterId vs\<rparr>,
              d\<lparr>votes := vs\<rparr>))"

section \<open>Toggling a bookmark\<close>

text \<open>
  The handler of \<^verbatim>\<open>POST /api/posts/:id/bookmark\<close>. The source takes the first bookmark of
  the pair with \<^verbatim>\<open>find\<close> and keeps every element \<^verbatim>\<open>b !== existingBookmark\<close>. The comparison
  is by object identity and the elements of a parsed array are distinct objects, so exactly
  the element at the first matching index is dropped. The handler has no check that the post
  exists and no path that answers 404.
\<close>

definition toggleBookmark :: "string \<Rightarrow> string \<Rightarrow> string \<Rightarrow> db \<Rightarrow> (error + bool) \<times> db" where
  "toggleBookmark pid userId now d =
     (case findIndex (\<lambda>b. bookmark_postId b = pid \<and> bookmark_userId b = userId) (bookmarks d) of
        Some existingBookmark \<Rightarrow>
          (Inr False, d\<lparr>bookmarks := splice1 existingBookmark (bookmarks d)\<rparr>)
      | None \<Rightarrow>
          (Inr True, d\<lparr>bookmarks := bookmarks d @
             [\<lparr>bookmark_postId = pid, bookmark_userId = userId, bookmark_timestamp = now\<rparr>]\<rparr>))"

text \<open>The \<^verbatim>\<open>isBookmarked\<close> flag as \<^verbatim>\<open>GET /api/posts\<close> computes it.\<close>

definition isBookmarked :: "string \<Rightarrow> string \<Rightarrow> db \<Rightarrow> bool" where
  "isBookmarked pid userId d =
     list_ex (\<lambda>b. bookmark_postId b = pid \<and> bookmark_userId b = userId) (bookmarks d)"

section \<open>The ban gate\<close>

text \<open>The middleware \<^verbatim>\<open>checkBan\<close> in front of every mutating public route: it answers 403 to
  a banned fingerprint and passes the request to the handler otherwise.\<close>

definition checkBan :: "string list \<Rightarrow> string \<Rightarrow> (db \<Rightarrow> (error + 'a) \<times> db) \<Rightarrow> db \<Rightarrow> (error + 'a) \<times> db" where
  "checkBan banned voterId handler d =
     (if voterId \<in> set banned then (Inl Forbidden, d) else handler d)"

section \<open>Creating a post\<close>

text \<open>\<^verbatim>\<open>String.prototype.trim\<close> strips white space and line terminators from both ends;
  these are the ones with a code below 256.\<close>

definition isWhiteSpace :: "char \<Rightarrow> bool" where
  "isWhiteSpace c = (of_char c \<in> set [9, 10, 11, 12, 13, 32, 160 :: nat])"

definition trim :: "string \<Rightarrow> string" where
  "trim s = rev (dropWhile isWhiteSpace (rev (dropWhile isWhiteSpace s)))"

text \<open>
  The handler of \<^verbatim>\<open>POST /api/posts\<close>. An absent \<^verbatim>\<open>content\<close> fails the first test like the
  empty string; absent \<^verbatim>\<open>tags\<close> and \<^verbatim>\<open>media\<close> are the empty array. \<open>newId\<close> is the value of
  \<^verbatim>\<open>uuidv4()\<close> and \<open>color\<close> the value of \<^verbatim>\<open>Math.floor(Math.random() * 5)\<close>. Both checks come
  before \<^verbatim>\<open>readDB\<close>.
\<close>

definition createPost :: "string \<Rightarrow> string list \<Rightarrow> mediafile option list \<Rightarrow> string \<Rightarrow> string \<Rightarrow> string \<Rightarrow> nat \<Rightarrow> db \<Rightarrow> (error + post) \<times> db" where
  "createPost content tags media ownerId newId now color d =
     (if content = [] \<or> length (trim content) = 0 then (Inl InvalidArgument, d)
      else if length content > 1000 then (Inl InvalidArgument, d)
      else
        let newPost = \<lparr>post_id = newId, post_content = trim content, post_tags = tags,
                       post_media = media, post_ownerId = ownerId, post_timestamp = now,
                       post_color = color\<rparr>
        in (Inr newPost, d\<lparr>posts := newPost # posts d\<rparr>))"

section \<open>Deleting a post\<close>

text \<open>
  The loop of the two delete handlers over the media of the post:
  \<^verbatim>\<open>for (const file of post.media) { if (file.fileUrl) { try { await unlink(...) } catch (e) {} } }\<close>.
  The test \<^verbatim>\<open>file.fileUrl\<close> stands outside the inner \<^verbatim>\<open>try\<close>: on a \<^verbatim>\<open>null\<close> element it throws,
  the \<^verbatim>\<open>catch\<close> of the handler answers 500 and nothing is written. A failed unlink is
  swallowed, and the upload directory is not part of the snapshot, so an element that is not
  \<^verbatim>\<open>null\<close> leaves the loop running.
\<close>

fun unlinkMedia :: "mediafile option list \<Rightarrow> error + unit" where
  "unlinkMedia [] = Inr ()"
| "unlinkMedia (None # files) = Inl Internal"
| "unlinkMedia (Some file # files) = unlinkMedia files"

text \<open>
  The handlers of \<^verbatim>\<open>DELETE /api/posts/:id\<close> and \<^verbatim>\<open>DELETE /api/admin/posts/:id\<close>. Both run
  the loop over the media first. The owner's route filters the post array, the admin's route
  splices the index it found.
\<close>

definition deletePost :: "string \<Rightarrow> string \<Rightarrow> db \<Rightarrow> (error + unit) \<times> db" where
  "deletePost pid voterId d =
     (case find (\<lambda>p. post_id p = pid) (posts d) of
        None \<Rightarrow> (Inl NotFound, d)
      | Some post \<Rightarrow>
          if post_ownerId post \<noteq> voterId then (Inl Forbidden, d)
          else case unlinkMedia (post_media post) of
            Inl e \<Rightarrow> (Inl e, d)
          | Inr u \<Rightarrow>
              (Inr (),
               d\<lparr>posts := filter (\<lambda>p. post_id p \<noteq> pid) (posts d),
                 comments := filter (\<lambda>c. comment_postId c \<noteq> pid) (comments d),
                 votes := filter (\<lambda>v. vote_postId v \<noteq> pid) (votes d),
                 bookmarks := filter (\<lambda>b. bookmark_postId b \<noteq> pid) (bookmarks d)\<rparr>))"

definition adminDeletePost :: "string \<Rightarrow> db \<Rightarrow> (error + unit) \<times> db" where
  "adminDeletePost pid d =
     (case findIndex (\<lambda>p. post_id p = pid) (posts d) of
        None \<Rightarrow> (Inl NotFound, d)
      | Some postIndex \<Rightarrow>
          case unlinkMedia (post_media (posts d ! postIndex)) of
            Inl e \<Rightarrow> (Inl e, d)
          | Inr u \<Rightarrow>
              (Inr (),
               d\<lparr>posts := splice1 postIndex (posts d),
                 comments := filter (\<lambda>c. comment_postId c \<noteq> pid) (comments d),
                 votes := filter (\<lambda>v. vote_postId v \<noteq> pid) (votes d),
                 bookmarks := filter (\<lambda>b. bookmark_postId b \<noteq> pid) (bookmarks d)\<rparr>))"

section \<open>Banning an identity\<close>

text \<open>
  The handler of \<^verbatim>\<open>POST /api/admin/ban\<close>, on the banned list and the snapshot. An absent
  \<^verbatim>\<open>voterId\<close> fails the first test like the empty string. With \<^verbatim>\<open>deletePosts\<close> the source
  assigns the filtered post array to \<^verbatim>\<open>db.posts\<close> first; the two filters after it look each
  comment's and each vote's post up in \<^verbatim>\<open>db.posts\<close>, that is in the array already filtered.
\<close>

definition banIdentity :: "string \<Rightarrow> bool \<Rightarrow> string list \<Rightarrow> db \<Rightarrow> (error + unit) \<times> string list \<times> db" where
  "banIdentity voterId deletePosts banned d =
     (if voterId = [] then (Inl InvalidArgument, banned, d)
      else
        let banned' = (if voterId \<notin> set banned then banned @ [voterId] else banned);
            d' = (if deletePosts then
                    let ps = filter (\<lambda>p. post_ownerId p \<noteq> voterId) (posts d);
                        cs = filter (\<lambda>c. case find (\<lambda>p. post_id p = comment_postId c) ps of
                                             None \<Rightarrow> True
                                           | Some post \<Rightarrow> post_ownerId post \<noteq> voterId)
                               (comments d);
                        vs = filter (\<lambda>v. case find (\<lambda>p. post_id p = vote_postId v) ps of
                                             None \<Rightarrow> True
                                           | Some post \<Rightarrow> post_ownerId post \<noteq> voterId)
                               (votes d)
                    in d\<lparr>posts := ps, comments := cs, votes := vs\<rparr>
                  else d)
        in (Inr (), banned', d'))"

text \<open>The handler of \<^verbatim>\<open>POST /api/admin/unban\<close>, on the banned list.\<close>

definition unbanIdentity :: "string \<Rightarrow> string list \<Rightarrow> (error + unit) \<times> string list" where
  "unbanIdentity voterId banned =
     (if voterId = [] then (Inl InvalidArgument, banned)
      else (Inr (), filter (\<lambda>i. i \<noteq> voterId) banned))"

section \<open>Commenting on a post\<close>

text \<open>The handler of \<^verbatim>\<open>POST /api/posts/:id/comments\<close>. \<open>newId\<close> is the value of
  \<^verbatim>\<open>uuidv4()\<close>.\<close>

definition addComment :: "string \<Rightarrow> string \<Rightarrow> string \<Rightarrow> string \<Rightarrow> db \<Rightarrow> (error + comment) \<times> db" where
  "addComment pid content newId now d =
     (if content = [] \<or> length (trim content) = 0 then (Inl InvalidArgument, d)
      else if length content > 500 then (Inl InvalidArgument, d)
      else case find (\<lambda>p. post_id p = pid) (posts d) of
        None \<Rightarrow> (Inl NotFound, d)
      | Some post \<Rightarrow>
          let newComment = \<lparr>comment_id = newId, comment_postId = pid,
                              comment_content = trim content, comment_timestamp = now\<rparr>
          in (Inr newComment, d\<lparr>comments := comments d @ [newComment]\<rparr>))"

section \<open>Reporting a post\<close>

text \<open>The handler of \<^verbatim>\<open>POST /api/posts/:id/report\<close>, on the post id, the reason and the
  fingerprint of the reporter. The object it pushes has five keys and no \<^verbatim>\<open>status\<close>.
  \<open>newId\<close> is the value of \<^verbatim>\<open>uuidv4()\<close>.\<close>

definition submitReport :: "string \<Rightarrow> string \<Rightarrow> string \<Rightarrow> string \<Rightarrow> string \<Rightarrow> db \<Rightarrow> (error + unit) \<times> db" where
  "submitReport pid reason reporterId newId now d =
     (case find (\<lambda>p. post_id p = pid) (posts d) of
        None \<Rightarrow> (Inl NotFound, d)
      | Some post \<Rightarrow>
          (Inr (),
           d\<lparr>reports := reports d @
              [\<lparr>report_id = newId, report_postId = pid,
                report_reason = (if reason = [] then ''No reason provided'' else reason),
                report_reportedBy = reporterId, report_timestamp = now,
                report_status = None\<rparr>]\<rparr>))"

section \<open>Listing the posts\<close>

text \<open>\<^verbatim>\<open>extractHashtags\<close>: the matches of \<^verbatim>\<open>/#\w+/g\<close> from left to right, in lower case,
  each kept at its first occurrence (the order of a \<^verbatim>\<open>Set\<close>).\<close>

definition isWordChar :: "char \<Rightarrow> bool" where
  "isWordChar c =
     (let n = (of_char c :: nat)
      in (48 \<le> n \<and> n \<le> 57) \<or> (65 \<le> n \<and> n \<le> 90) \<or> n = 95 \<or> (97 \<le> n \<and> n \<le> 122))"

function matchHashtags :: "string \<Rightarrow> string list" where
  "matchHashtags [] = []"
| "matchHashtags (c # cs) =
     (if c = CHR ''#'' \<and> takeWhile isWordChar cs \<noteq> []
      then (c # takeWhile isWordChar cs) # matchHashtags (dropWhile isWordChar cs)
      else matchHashtags cs)"
  by pat_completeness auto
termination
  by (relation "measure length") (auto simp: length_dropWhile_le less_Suc_eq_le)

definition toLowerCase :: "string \<Rightarrow> string" where
  "toLowerCase s =
     map (\<lambda>c. if 65 \<le> (of_char c :: nat) \<and> (of_char c :: nat) \<le> 90
               then char_of (of_char c + (32 :: nat)) else c) s"

definition extractHashtags :: "string \<Rightarrow> string list" where
  "extractHashtags content = rev (remdups (rev (map toLowerCase (matchHashtags content))))"

text \<open>The object \<^verbatim>\<open>GET /api/posts\<close> builds for a post: the stored post and the derived
  fields. The tallies are counted over the vote array, not read from the post.\<close>

record post_view =
  view_post :: post
  view_comments :: "comment list"
  view_commentCount :: nat
  view_upvotes :: nat
  view_downvotes :: nat
  view_netVotes :: int
  view_userVote :: "string option"
  view_isOwner :: bool
  view_isBookmarked :: bool
  view_hashtags :: "string list"

definition enrich :: "string \<Rightarrow> db \<Rightarrow> post \<Rightarrow> post_view" where
  "enrich voterId d post =
     (let userVote = find (\<lambda>v. vote_postId v = post_id post \<and> vote_voterId v = voterId) (votes d);
          postComments = filter (\<lambda>c. comment_postId c = post_id post) (comments d);
          postVotes = filter (\<lambda>v. vote_postId v = post_id post) (votes d)
      in \<lparr>view_post = post,
          view_comments = postComments,
          view_commentCount = length postComments,
          view_upvotes = length (filter (\<lambda>v. vote_type v = ''up'') postVotes),
          view_downvotes = length (filter (\<lambda>v. vote_type v = ''down'') postVotes),
          view_netVotes = int (length (filter (\<lambda>v. vote_type v = ''up'') postVotes))
                        - int (length (filter (\<lambda>v. vote_type v = ''down'') postVotes)),
          view_userVote = (case userVote of None \<Rightarrow> None | Some v \<Rightarrow> Some (vote_type v)),
          view_isOwner = (post_ownerId post = voterId),
          view_isBookmarked = isBookmarked (post_id post) voterId d,
          view_hashtags = extractHashtags (post_content post)\<rparr>)"

text \<open>
  \<^verbatim>\<open>Array.prototype.sort\<close> with a comparator is a stable sort (ECMAScript 2019): an element
  goes before the first element it does not compare greater than. It is modelled as the
  insertion sort with that rule; the comparator of the source is
  \<^verbatim>\<open>(a, b) => b.netVotes - a.netVotes\<close>.
\<close>

fun insertBy :: "('a \<Rightarrow> 'a \<Rightarrow> int) \<Rightarrow> 'a \<Rightarrow> 'a list \<Rightarrow> 'a list" where
  "insertBy cmp x [] = [x]"
| "insertBy cmp x (y # ys) = (if cmp x y \<le> 0 then x # y # ys else y # insertBy cmp x ys)"

definition sortBy :: "('a \<Rightarrow> 'a \<Rightarrow> int) \<Rightarrow> 'a list \<Rightarrow> 'a list" where
  "sortBy cmp xs = foldr (insertBy cmp) xs []"

definition listPosts :: "string \<Rightarrow> db \<Rightarrow> post_view list" where
  "listPosts voterId d =
     sortBy (\<lambda>a b. view_netVotes b - view_netVotes a) (map (enrich voterId d) (posts d))"

section \<open>Notation for the statements\<close>

text \<open>The predicates of the source's \<^verbatim>\<open>find\<close> and \<^verbatim>\<open>findIndex\<close> calls on votes and
  bookmarks, and the pair a vote belongs to.\<close>

abbreviation isVoteOf :: "string \<Rightarrow> string \<Rightarrow> vote \<Rightarrow> bool" where
  "isVoteOf pid voterId \<equiv> (\<lambda>v. vote_postId v = pid \<and> vote_voterId v = voterId)"

abbreviation isBookmarkOf :: "string \<Rightarrow> string \<Rightarrow> bookmark \<Rightarrow> bool" where
  "isBookmarkOf pid userId \<equiv> (\<lambda>b. bookmark_postId b = pid \<and> bookmark_userId b = userId)"

abbreviation voteKey :: "vote \<Rightarrow> string \<times> string" where
  "voteKey \<equiv> (\<lambda>v. (vote_postId v, vote_voterId v))"

text \<open>A run of calls, each on the snapshot the call before it left: the argument lists are
  (post id, type, voter id, timestamp).\<close>

fun castVotes :: "(string \<times> string \<times> string \<times> string) list \<Rightarrow> db \<Rightarrow> db" where
  "castVotes [] d = d"
| "castVotes ((pid, type, voterId, now) # calls) d =
     castVotes calls (snd (castVote pid type voterId now d))"

text \<open>Each (postId, voterId) pair has at most one entry in the vote array.\<close>

definition votes_unique :: "vote list \<Rightarrow> bool" where
  "votes_unique vs = distinct (map (\<lambda>v. (vote_postId v, vote_voterId v)) vs)"

text \<open>
  The requests that change the two files, with the fingerprint of the sender for the routes
  behind the ban gate, and the server's answer to a run of them as the files it leaves. The
  admin routes are taken with the right password (with a wrong one they change nothing).
  \<^verbatim>\<open>uuidv4()\<close> is taken to give a post an id no stored post has: a \<open>CreatePost\<close> whose id
  is in use stands for no run of the server and is passed over.
\<close>

datatype request =
    CreatePost string "string list" "mediafile option list" string string string nat
  | CastVote string string string string
  | ToggleBookmark string string string
  | AddComment string string string string string
  | SubmitReport string string string string string
  | DeletePost string string
  | AdminDeletePost string
  | BanIdentity string bool
  | UnbanIdentity string

fun handle :: "request \<Rightarrow> string list \<times> db \<Rightarrow> string list \<times> db" where
  "handle (CreatePost content tags media ownerId newId now color) (banned, d) =
     (if newId \<in> set (map post_id (posts d)) then (banned, d)
      else (banned, snd (checkBan banned ownerId
                           (createPost content tags media ownerId newId now color) d)))"
| "handle (CastVote pid type voterId now) (banned, d) =
     (banned, snd (checkBan banned voterId (castVote pid type voterId now) d))"
| "handle (ToggleBookmark pid userId now) (banned, d) =
     (banned, snd (checkBan banned userId (toggleBookmark pid userId now) d))"
| "handle (AddComment pid content voterId newId now) (banned, d) =
     (banned, snd (checkBan banned voterId (addComment pid content newId now) d))"
| "handle (SubmitReport pid reason reporterId newId now) (banned, d) =
     (banned, snd (checkBan banned reporterId (submitReport pid reason reporterId newId now) d))"
| "handle (DeletePost pid voterId) (banned, d) =
     (banned, snd (checkBan banned voterId (deletePost pid voterId) d))"
| "handle (AdminDeletePost pid) (banned, d) = (banned, snd (adminDeletePost pid d))"
| "handle (BanIdentity voterId deletePosts) (banned, d) =
     snd (banIdentity voterId deletePosts banned d)"
| "handle (UnbanIdentity voterId) (banned, d) = (snd (unbanIdentity voterId banned), d)"

fun serve :: "request list \<Rightarrow> string list \<times> db \<Rightarrow> string list \<times> db" where
  "serve [] s = s"
| "serve (r # rs) s = serve rs (handle r s)"

text \<open>The invariants of the data model on a snapshot: post ids are unique, each
  (postId, voterId) pair has at most one vote and each (postId, userId) pair at most one
  bookmark.\<close>

definition store_invariant :: "db \<Rightarrow> bool" where
  "store_invariant d \<longleftrightarrow>
     distinct (map post_id (posts d)) \<and> votes_unique (votes d) \<and>
     distinct (map (\<lambda>b. (bookmark_postId b, bookmark_userId b)) (bookmarks d))"

text \<open>Short forms of the records in the example stores. A post there has the content
  \<open>hello\<close> and no tags or media; a comment has the content \<open>nice\<close>.\<close>

abbreviation aPost :: "string \<Rightarrow> string \<Rightarrow> post" where
  "aPost pid ownerId \<equiv>
     \<lparr>post_id = pid, post_content = ''hello'', post_tags = [], post_media = [],
      post_ownerId = ownerId, post_timestamp = ''t0'', post_color = 0\<rparr>"

abbreviation aComment :: "string \<Rightarrow> string \<Rightarrow> string \<Rightarrow> comment" where
  "aComment cid pid now \<equiv>
     \<lparr>comment_id = cid, comment_postId = pid, comment_content = ''nice'',
      comment_timestamp = now\<rparr>"

abbreviation aVote :: "string \<Rightarrow> string \<Rightarrow> string \<Rightarrow> string \<Rightarrow> vote" where
  "aVote pid voterId type now \<equiv>
     \<lparr>vote_postId = pid, vote_voterId = voterId, vote_type = type, vote_timestamp = now\<rparr>"

abbreviation aBookmark :: "string \<Rightarrow> string \<Rightarrow> string \<Rightarrow> bookmark" where
  "aBookmark pid userId now \<equiv>
     \<lparr>bookmark_postId = pid, bookmark_userId = userId, bookmark_timestamp = now\<rparr>"

section \<open>Facts about the array operations\<close>

lemma findIndex_None_iff: "findIndex P xs = None \<longleftrightarrow> (\<forall>x\<in>set xs. \<not> P x)"
  by (induction xs) auto

lemma findIndex_Some_D:
  "findIndex P xs = Some i \<Longrightarrow> i < length xs \<and> P (xs ! i) \<and> (\<forall>j<i. \<not> P (xs ! j))"
proof (induction xs arbitrary: i)
  case Nil
  then show ?case by simp
next
  case (Cons x xs)
  show ?case
  proof (cases "P x")
    case True
    with Cons.prems show ?thesis by simp
  next
    case False
    with Cons.prems obtain k where k: "findIndex P xs = Some k" "i = Suc k"
      by auto
    from Cons.IH [OF k(1)] False k(2) show ?thesis
      by (auto simp: nth_Cons split: nat.splits)
  qed
qed

lemma findIndex_Some_ex:
  "x \<in> set xs \<Longrightarrow> P x \<Longrightarrow> \<exists>i. findIndex P xs = Some i"
  using findIndex_None_iff [of P xs] by (cases "findIndex P xs") auto

lemma findIndex_split:
  "findIndex P xs = Some i \<Longrightarrow>
     \<exists>ys x zs. xs = ys @ x # zs \<and> P x \<and> (\<forall>y\<in>set ys. \<not> P y) \<and> splice1 i xs = ys @ zs"
proof -
  assume a: "findIndex P xs = Some i"
  from findIndex_Some_D [OF a] have i: "i < length xs" "P (xs ! i)" "\<forall>j<i. \<not> P (xs ! j)"
    by simp_all
  have "xs = take i xs @ xs ! i # drop (Suc i) xs"
    using i(1) by (rule id_take_nth_drop)
  moreover have "\<forall>y\<in>set (take i xs). \<not> P y"
    using i(1,3) by (auto simp: in_set_conv_nth)
  moreover have "splice1 i xs = take i xs @ drop (Suc i) xs"
    by (simp add: splice1_def)
  ultimately show ?thesis using i(2) by blast
qed

lemma find_Some_ex: "x \<in> set xs \<Longrightarrow> P x \<Longrightarrow> \<exists>y. find P xs = Some y"
  by (cases "find P xs") (auto simp: find_None_iff)

lemma splice1_unique:
  "findIndex P xs = Some i \<Longrightarrow> length (filter P xs) \<le> 1 \<Longrightarrow>
     splice1 i xs = filter (\<lambda>x. \<not> P x) xs"
proof (induction xs arbitrary: i)
  case Nil
  then show ?case by simp
next
  case (Cons x xs)
  show ?case
  proof (cases "P x")
    case True
    with Cons.prems have "filter P xs = []" by simp
    then have "filter (\<lambda>x. \<not> P x) xs = xs"
      by (simp add: filter_empty_conv)
    with True Cons.prems show ?thesis by (simp add: splice1_def)
  next
    case False
    with Cons.prems obtain k where k: "findIndex P xs = Some k" "i = Suc k"
      by auto
    from Cons.prems False have "length (filter P xs) \<le> 1" by simp
    from Cons.IH [OF k(1) this] False k(2) show ?thesis
      by (simp add: splice1_def)
  qed
qed

lemma update_unique:
  "findIndex P xs = Some i \<Longrightarrow> length (filter P xs) \<le> 1 \<Longrightarrow>
     xs[i := f (xs ! i)] = map (\<lambda>x. if P x then f x else x) xs"
proof (induction xs arbitrary: i)
  case Nil
  then show ?case by simp
next
  case (Cons x xs)
  show ?case
  proof (cases "P x")
    case True
    with Cons.prems have "filter P xs = []" by simp
    then have "map (\<lambda>x. if P x then f x else x) xs = xs"
      by (simp add: filter_empty_conv map_idI)
    with True Cons.prems show ?thesis by simp
  next
    case False
    with Cons.prems obtain k where k: "findIndex P xs = Some k" "i = Suc k"
      by auto
    from Cons.prems False have "length (filter P xs) \<le> 1" by simp
    from Cons.IH [OF k(1) this] False k(2) show ?thesis
      by simp
  qed
qed

lemma filter_single:
  assumes "length (filter P xs) \<le> 1" and "x \<in> set xs" and "P x"
  shows "filter P xs = [x]"
proof -
  from assms(2,3) have "x \<in> set (filter P xs)" by simp
  with assms(1) show ?thesis by (cases "filter P xs") auto
qed

lemma first_is_single:
  assumes "length (filter P xs) \<le> 1" and "x \<in> set xs" and "P x"
      and "findIndex P xs = Some i"
  shows "xs ! i = x"
proof -
  from findIndex_Some_D [OF assms(4)] have "xs ! i \<in> set xs" "P (xs ! i)" by simp_all
  then have "filter P xs = [xs ! i]" using assms(1) by (intro filter_single)
  moreover have "filter P xs = [x]" using assms(1-3) by (rule filter_single)
  ultimately show ?thesis by simp
qed

lemma length_filter_split:
  "length (filter Q xs) = length (filter Q (filter P xs)) + length (filter Q (filter (\<lambda>x. \<not> P x) xs))"
  by (induction xs) auto

lemma distinct_map_filter_le1:
  "distinct (map f xs) \<Longrightarrow> length (filter (\<lambda>x. f x = k) xs) \<le> 1"
proof (induction xs)
  case Nil
  then show ?case by simp
next
  case (Cons x xs)
  show ?case
  proof (cases "f x = k")
    case True
    with Cons.prems have "\<forall>y\<in>set xs. f y \<noteq> k" by (auto simp: image_iff)
    then have "filter (\<lambda>x. f x = k) xs = []" by (simp add: filter_empty_conv)
    with True show ?thesis by simp
  next
    case False
    with Cons show ?thesis by simp
  qed
qed

lemma filter_le1_distinct_map:
  "(\<forall>k. length (filter (\<lambda>x. f x = k) xs) \<le> 1) \<Longrightarrow> distinct (map f xs)"
proof (induction xs)
  case Nil
  then show ?case by simp
next
  case (Cons x xs)
  from Cons.prems have "length (filter (\<lambda>y. f y = f x) (x # xs)) \<le> 1" by blast
  then have "filter (\<lambda>y. f y = f x) xs = []" by simp
  then have a: "f x \<notin> f ` set xs" by (auto simp: filter_empty_conv)
  have "length (filter (\<lambda>y. f y = k) xs) \<le> 1" for k
  proof -
    from Cons.prems have "length (filter (\<lambda>y. f y = k) (x # xs)) \<le> 1" by blast
    then show ?thesis by (simp split: if_splits)
  qed
  then have "distinct (map f xs)" using Cons.IH by blast
  with a show ?case by simp
qed

section \<open>Facts about voting\<close>

lemma updateVotes_same:
  assumes u: "length (filter (isVoteOf pid voterId) vs) \<le> 1"
      and e: "v \<in> set vs" "isVoteOf pid voterId v" "vote_type v = type"
  shows "updateVotes pid type voterId now vs = filter (\<lambda>v. \<not> isVoteOf pid voterId v) vs"
proof -
  from e obtain i where i: "findIndex (isVoteOf pid voterId) vs = Some i"
    using findIndex_Some_ex [of v vs "isVoteOf pid voterId"] by blast
  have "vs ! i = v" using u e(1,2) i by (rule first_is_single)
  with i e(3) have "updateVotes pid type voterId now vs = splice1 i vs"
    by (simp add: updateVotes_def)
  also have "\<dots> = filter (\<lambda>v. \<not> isVoteOf pid voterId v) vs"
    using i u by (rule splice1_unique)
  finally show ?thesis .
qed

lemma updateVotes_other:
  assumes u: "length (filter (isVoteOf pid voterId) vs) \<le> 1"
      and e: "v \<in> set vs" "isVoteOf pid voterId v" "vote_type v \<noteq> type"
  shows "updateVotes pid type voterId now vs =
           map (\<lambda>v. if isVoteOf pid voterId v then v\<lparr>vote_type := type\<rparr> else v) vs"
proof -
  from e obtain i where i: "findIndex (isVoteOf pid voterId) vs = Some i"
    using findIndex_Some_ex [of v vs "isVoteOf pid voterId"] by blast
  have "vs ! i = v" using u e(1,2) i by (rule first_is_single)
  with i e(3) have "updateVotes pid type voterId now vs = vs[i := (vs ! i)\<lparr>vote_type := type\<rparr>]"
    by (simp add: updateVotes_def)
  also have "\<dots> = map (\<lambda>v. if isVoteOf pid voterId v then v\<lparr>vote_type := type\<rparr> else v) vs"
    using i u by (rule update_unique)
  finally show ?thesis .
qed

lemma updateVotes_none:
  assumes "\<forall>v\<in>set vs. \<not> isVoteOf pid voterId v"
  shows "updateVotes pid type voterId now vs =
           vs @ [\<lparr>vote_postId = pid, vote_voterId = voterId, vote_type = type,
                  vote_timestamp = now\<rparr>]"
  using assms findIndex_None_iff [of "isVoteOf pid voterId" vs]
  by (simp add: updateVotes_def)

lemma find_filter_Nil: "find P (filter (\<lambda>x. \<not> P x) xs) = None"
  by (induction xs) auto

lemma userVote_after_same:
  "userVoteOf pid voterId (filter (\<lambda>v. \<not> isVoteOf pid voterId v) vs) = None"
  using find_filter_Nil [of "isVoteOf pid voterId" vs] by (simp add: userVoteOf_def)

lemma find_map_retype:
  "x \<in> set xs \<Longrightarrow> isVoteOf pid voterId x \<Longrightarrow>
   \<exists>y. find (isVoteOf pid voterId)
      (map (\<lambda>v. if isVoteOf pid voterId v then v\<lparr>vote_type := type\<rparr> else v) xs) = Some y
      \<and> vote_type y = type"
  by (induction xs) auto

lemma userVote_after_other:
  assumes "v \<in> set vs" "isVoteOf pid voterId v" "type \<noteq> []"
  shows "userVoteOf pid voterId
     (map (\<lambda>v. if isVoteOf pid voterId v then v\<lparr>vote_type := type\<rparr> else v) vs) = Some type"
  using find_map_retype [OF assms(1,2), of type] assms(3)
  by (auto simp: userVoteOf_def)

lemma find_append_new:
  "\<forall>x\<in>set xs. \<not> P x \<Longrightarrow> P y \<Longrightarrow> find P (xs @ [y]) = Some y"
  by (induction xs) auto

lemma userVote_after_none:
  assumes "\<forall>v\<in>set vs. \<not> isVoteOf pid voterId v" "type \<noteq> []"
  shows "userVoteOf pid voterId
     (vs @ [\<lparr>vote_postId = pid, vote_voterId = voterId, vote_type = type,
                  vote_timestamp = now\<rparr>]) = Some type"
  using assms by (simp add: userVoteOf_def find_append_new)

lemma castVote_ok:
  assumes "type = ''up'' \<or> type = ''down''" and "p \<in> set (posts d)" "post_id p = pid"
  shows "castVote pid type voterId now d =
     (Inr \<lparr>resp_upvotes = upvotesOf pid (updateVotes pid type voterId now (votes d)),
           resp_downvotes = downvotesOf pid (updateVotes pid type voterId now (votes d)),
           resp_netVotes = netVotesOf pid (updateVotes pid type voterId now (votes d)),
           resp_milestone = milestoneOf (netVotesOf pid (updateVotes pid type voterId now (votes d))),
           resp_userVote = userVoteOf pid voterId (updateVotes pid type voterId now (votes d))\<rparr>,
      d\<lparr>votes := updateVotes pid type voterId now (votes d)\<rparr>)"
proof -
  from assms(2,3) obtain i where "findIndex (\<lambda>p. post_id p = pid) (posts d) = Some i"
    using findIndex_Some_ex [of p "posts d" "\<lambda>p. post_id p = pid"] by blast
  with assms(1) show ?thesis
    by (auto simp: castVote_def Let_def netVotesOf_def)
qed

lemma castVote_Inr_D:
  assumes "castVote pid type voterId now d = (Inr r, d')"
  shows "d' = d\<lparr>votes := updateVotes pid type voterId now (votes d)\<rparr> \<and>
         resp_upvotes r = upvotesOf pid (votes d') \<and>
         resp_downvotes r = downvotesOf pid (votes d') \<and>
         resp_netVotes r = netVotesOf pid (votes d') \<and>
         resp_milestone r = milestoneOf (netVotesOf pid (votes d')) \<and>
         resp_userVote r = userVoteOf pid voterId (votes d')"
  using assms
  by (auto simp: castVote_def Let_def netVotesOf_def split: if_splits option.splits)

lemma castVote_snd:
  "snd (castVote pid type voterId now d) = d \<or>
   snd (castVote pid type voterId now d) = d\<lparr>votes := updateVotes pid type voterId now (votes d)\<rparr>"
  by (simp add: castVote_def Let_def split: option.split)

lemma netVotesOf_count:
  "netVotesOf pid vs =
     int (length (filter (\<lambda>v. vote_postId v = pid \<and> vote_type v = ''up'') vs)) -
     int (length (filter (\<lambda>v. vote_postId v = pid \<and> vote_type v = ''down'') vs))"
  by (simp add: netVotesOf_def upvotesOf_def downvotesOf_def conj_commute)

text \<open>The two ways to say that every pair has at most one vote agree.\<close>

lemma votes_unique_le1:
  "votes_unique vs \<Longrightarrow> length (filter (isVoteOf p u) vs) \<le> 1"
  using distinct_map_filter_le1 [of voteKey vs "(p, u)"]
  by (simp add: votes_unique_def)

lemma votes_unique_iff:
  "votes_unique vs \<longleftrightarrow> (\<forall>p u. length (filter (isVoteOf p u) vs) \<le> 1)"
proof
  assume "votes_unique vs"
  then show "\<forall>p u. length (filter (isVoteOf p u) vs) \<le> 1"
    using votes_unique_le1 by blast
next
  assume a: "\<forall>p u. length (filter (isVoteOf p u) vs) \<le> 1"
  have "length (filter (\<lambda>v. voteKey v = k) vs) \<le> 1" for k
    using a by (cases k) simp
  then show "votes_unique vs"
    unfolding votes_unique_def by (intro filter_le1_distinct_map) blast
qed

lemma votes_unique_splice1:
  assumes "votes_unique vs" and "i < length vs"
  shows "votes_unique (splice1 i vs)"
proof -
  have "vs = take i vs @ vs ! i # drop (Suc i) vs"
    using assms(2) by (rule id_take_nth_drop)
  then have "distinct (map voteKey (take i vs @ vs ! i # drop (Suc i) vs))"
    using assms(1) by (simp add: votes_unique_def)
  then show ?thesis
    by (simp add: votes_unique_def splice1_def)
qed

lemma votes_unique_retype:
  assumes "votes_unique vs" and "i < length vs"
  shows "votes_unique (vs[i := (vs ! i)\<lparr>vote_type := type\<rparr>])"
proof -
  have "map voteKey (vs[i := (vs ! i)\<lparr>vote_type := type\<rparr>]) = (map voteKey vs)[i := voteKey (vs ! i)]"
    by (simp add: map_update)
  also have "\<dots> = map voteKey vs"
    using assms(2) by (simp add: list_update_same_conv)
  finally show ?thesis using assms(1) by (simp add: votes_unique_def)
qed

lemma votes_unique_push:
  assumes "votes_unique vs" and "\<forall>v\<in>set vs. \<not> isVoteOf pid voterId v"
  shows "votes_unique (vs @ [\<lparr>vote_postId = pid, vote_voterId = voterId, vote_type = type,
                  vote_timestamp = now\<rparr>])"
  using assms by (auto simp: votes_unique_def)

lemma votes_unique_updateVotes:
  assumes "votes_unique vs"
  shows "votes_unique (updateVotes pid type voterId now vs)"
proof (cases "findIndex (isVoteOf pid voterId) vs")
  case None
  then have n: "\<forall>v\<in>set vs. \<not> isVoteOf pid voterId v"
    by (simp add: findIndex_None_iff)
  from None have "updateVotes pid type voterId now vs =
     vs @ [\<lparr>vote_postId = pid, vote_voterId = voterId, vote_type = type, vote_timestamp = now\<rparr>]"
    by (simp add: updateVotes_def)
  with votes_unique_push [OF assms n] show ?thesis by simp
next
  case (Some i)
  from findIndex_Some_D [OF Some] have i: "i < length vs" by simp
  from Some have "updateVotes pid type voterId now vs =
     (if vote_type (vs ! i) = type then splice1 i vs else vs[i := (vs ! i)\<lparr>vote_type := type\<rparr>])"
    by (simp add: updateVotes_def)
  with votes_unique_splice1 [OF assms i] votes_unique_retype [OF assms i]
  show ?thesis by simp
qed

lemma votes_unique_castVote:
  assumes "votes_unique (votes d)"
  shows "votes_unique (votes (snd (castVote pid type voterId now d)))"
  using castVote_snd [of pid type voterId now d] assms
    votes_unique_updateVotes [OF assms, of pid type voterId now]
  by auto

lemma votes_unique_castVotes:
  "votes_unique (votes d) \<Longrightarrow> votes_unique (votes (castVotes calls d))"
proof (induction calls arbitrary: d)
  case Nil
  then show ?case by simp
next
  case (Cons c calls)
  obtain pid type voterId now where c: "c = (pid, type, voterId, now)"
    by (cases c) auto
  from Cons.prems have "votes_unique (votes (snd (castVote pid type voterId now d)))"
    by (rule votes_unique_castVote)
  then show ?case unfolding c by (simp add: Cons.IH)
qed

text \<open>How one call moves the net tally.\<close>

lemma milestoneOf_iff:
  "(milestoneOf n \<noteq> None) = (n = 10 \<or> n = 50 \<or> n = 100)"
  by (simp add: milestoneOf_def)

lemma netVotesOf_push_up:
  "netVotesOf pid (vs @ [\<lparr>vote_postId = pid, vote_voterId = voterId, vote_type = ''up'',
      vote_timestamp = now\<rparr>]) = netVotesOf pid vs + 1"
  by (simp add: netVotesOf_def upvotesOf_def downvotesOf_def)

lemma netVotesOf_drop_up:
  assumes "filter (isVoteOf pid voterId) vs = [v]" and "vote_type v = ''up''"
  shows "netVotesOf pid (filter (\<lambda>v. \<not> isVoteOf pid voterId v) vs) = netVotesOf pid vs - 1"
proof -
  let ?rest = "filter (\<lambda>v. \<not> isVoteOf pid voterId v) vs"
  from assms(1) have "v \<in> set (filter (isVoteOf pid voterId) vs)" by simp
  then have v: "vote_postId v = pid" by simp
  have "length (filter (\<lambda>v. vote_postId v = pid \<and> vote_type v = ''up'') vs) =
        length (filter (\<lambda>v. vote_postId v = pid \<and> vote_type v = ''up'') [v]) +
        length (filter (\<lambda>v. vote_postId v = pid \<and> vote_type v = ''up'') ?rest)"
    using length_filter_split [of "\<lambda>v. vote_postId v = pid \<and> vote_type v = ''up''" vs
        "isVoteOf pid voterId"] assms(1) by simp
  moreover have "length (filter (\<lambda>v. vote_postId v = pid \<and> vote_type v = ''down'') vs) =
        length (filter (\<lambda>v. vote_postId v = pid \<and> vote_type v = ''down'') [v]) +
        length (filter (\<lambda>v. vote_postId v = pid \<and> vote_type v = ''down'') ?rest)"
    using length_filter_split [of "\<lambda>v. vote_postId v = pid \<and> vote_type v = ''down''" vs
        "isVoteOf pid voterId"] assms(1) by simp
  ultimately show ?thesis
    using v assms(2) by (simp add: netVotesOf_count)
qed

lemma castVote_up_new:
  assumes p: "\<exists>p\<in>set (posts d). post_id p = pid"
      and n: "\<forall>v\<in>set (votes d). \<not> isVoteOf pid voterId v"
  shows "\<exists>r d'. castVote pid ''up'' voterId now d = (Inr r, d') \<and>
           resp_netVotes r = netVotesOf pid (votes d) + 1 \<and>
           resp_milestone r = milestoneOf (netVotesOf pid (votes d) + 1)"
proof -
  from p obtain q where q: "q \<in> set (posts d)" "post_id q = pid" by blast
  have t: "''up'' = ''up'' \<or> ''up'' = ''down''" by simp
  have e: "updateVotes pid ''up'' voterId now (votes d) =
      votes d @ [\<lparr>vote_postId = pid, vote_voterId = voterId, vote_type = ''up'',
                  vote_timestamp = now\<rparr>]"
    using n by (rule updateVotes_none)
  show ?thesis
    using castVote_ok [OF t q, of voterId now] netVotesOf_push_up [of pid "votes d" voterId now]
    unfolding e by simp
qed

lemma castVote_up_off:
  assumes p: "\<exists>p\<in>set (posts d). post_id p = pid"
      and f: "filter (isVoteOf pid voterId) (votes d) = [v]" and v: "vote_type v = ''up''"
  shows "\<exists>r. castVote pid ''up'' voterId now d =
             (Inr r, d\<lparr>votes := filter (\<lambda>v. \<not> isVoteOf pid voterId v) (votes d)\<rparr>) \<and>
           resp_netVotes r = netVotesOf pid (votes d) - 1 \<and>
           resp_milestone r = milestoneOf (netVotesOf pid (votes d) - 1)"
proof -
  from p obtain q where q: "q \<in> set (posts d)" "post_id q = pid" by blast
  have t: "''up'' = ''up'' \<or> ''up'' = ''down''" by simp
  from f have "v \<in> set (filter (isVoteOf pid voterId) (votes d))" by simp
  then have m: "v \<in> set (votes d)" "isVoteOf pid voterId v" by simp_all
  from f have u: "length (filter (isVoteOf pid voterId) (votes d)) \<le> 1" by simp
  have e: "updateVotes pid ''up'' voterId now (votes d) =
      filter (\<lambda>v. \<not> isVoteOf pid voterId v) (votes d)"
    using u m v by (rule updateVotes_same)
  show ?thesis
    using castVote_ok [OF t q, of voterId now] netVotesOf_drop_up [OF f v]
    unfolding e by simp
qed

lemma castVote_milestone_tally:
  "(\<forall>r d'. castVote pid type voterId now d = (Inr r, d') \<longrightarrow>
      resp_netVotes r = netVotesOf pid (votes d') \<and>
      (resp_milestone r \<noteq> None) =
        (netVotesOf pid (votes d') = 10 \<or> netVotesOf pid (votes d') = 50 \<or>
         netVotesOf pid (votes d') = 100)) \<and>
   ((\<exists>p\<in>set (posts d). post_id p = pid) \<and> (\<forall>v\<in>set (votes d). \<not> isVoteOf pid voterId v) \<and>
    netVotesOf pid (votes d) = 9 \<longrightarrow>
      (\<exists>r d'. castVote pid ''up'' voterId now d = (Inr r, d') \<and>
         resp_netVotes r = 10 \<and> resp_milestone r \<noteq> None)) \<and>
   ((\<exists>p\<in>set (posts d). post_id p = pid) \<and> (\<forall>v\<in>set (votes d). \<not> isVoteOf pid voterId v) \<and>
    netVotesOf pid (votes d) = 10 \<longrightarrow>
      (\<exists>r d'. castVote pid ''up'' voterId now d = (Inr r, d') \<and>
         resp_netVotes r = 11 \<and> resp_milestone r = None)) \<and>
   ((\<exists>p\<in>set (posts d). post_id p = pid) \<and>
    (\<exists>v. filter (isVoteOf pid voterId) (votes d) = [v] \<and> vote_type v = ''up'') \<and>
    netVotesOf pid (votes d) = 10 \<longrightarrow>
      (\<exists>r1 d1 r2 d2. castVote pid ''up'' voterId now d = (Inr r1, d1) \<and>
         resp_netVotes r1 = 9 \<and> resp_milestone r1 = None \<and>
         castVote pid ''up'' voterId now' d1 = (Inr r2, d2) \<and>
         resp_netVotes r2 = 10 \<and> resp_milestone r2 \<noteq> None))"
proof (intro conjI allI impI)
  fix r d'
  assume c: "castVote pid type voterId now d = (Inr r, d')"
  from castVote_Inr_D [OF c]
  show "resp_netVotes r = netVotesOf pid (votes d')" by simp
  from castVote_Inr_D [OF c] milestoneOf_iff [of "netVotesOf pid (votes d')"]
  show "(resp_milestone r \<noteq> None) =
        (netVotesOf pid (votes d') = 10 \<or> netVotesOf pid (votes d') = 50 \<or>
         netVotesOf pid (votes d') = 100)" by simp
next
  assume a: "(\<exists>p\<in>set (posts d). post_id p = pid) \<and> (\<forall>v\<in>set (votes d). \<not> isVoteOf pid voterId v) \<and>
    netVotesOf pid (votes d) = 9"
  then have p: "\<exists>p\<in>set (posts d). post_id p = pid"
    and n: "\<forall>v\<in>set (votes d). \<not> isVoteOf pid voterId v" by simp_all
  from castVote_up_new [OF p n, of now] a
  show "\<exists>r d'. castVote pid ''up'' voterId now d = (Inr r, d') \<and>
         resp_netVotes r = 10 \<and> resp_milestone r \<noteq> None"
    by (auto simp: milestoneOf_def)
next
  assume a: "(\<exists>p\<in>set (posts d). post_id p = pid) \<and> (\<forall>v\<in>set (votes d). \<not> isVoteOf pid voterId v) \<and>
    netVotesOf pid (votes d) = 10"
  then have p: "\<exists>p\<in>set (posts d). post_id p = pid"
    and n: "\<forall>v\<in>set (votes d). \<not> isVoteOf pid voterId v" by simp_all
  from castVote_up_new [OF p n, of now] a
  show "\<exists>r d'. castVote pid ''up'' voterId now d = (Inr r, d') \<and>
         resp_netVotes r = 11 \<and> resp_milestone r = None"
    by (auto simp: milestoneOf_def)
next
  assume a: "(\<exists>p\<in>set (posts d). post_id p = pid) \<and>
    (\<exists>v. filter (isVoteOf pid voterId) (votes d) = [v] \<and> vote_type v = ''up'') \<and>
    netVotesOf pid (votes d) = 10"
  then have p: "\<exists>p\<in>set (posts d). post_id p = pid"
    and ten: "netVotesOf pid (votes d) = 10" by simp_all
  from a obtain v where f: "filter (isVoteOf pid voterId) (votes d) = [v]"
    and v: "vote_type v = ''up''" by blast
  let ?d1 = "d\<lparr>votes := filter (\<lambda>v. \<not> isVoteOf pid voterId v) (votes d)\<rparr>"
  from castVote_up_off [OF p f v, of now] ten
  obtain r1 where r1: "castVote pid ''up'' voterId now d = (Inr r1, ?d1)"
    "resp_netVotes r1 = 9" "resp_milestone r1 = None"
    by (auto simp: milestoneOf_def)
  have p1: "\<exists>p\<in>set (posts ?d1). post_id p = pid" using p by simp
  have n1: "\<forall>v\<in>set (votes ?d1). \<not> isVoteOf pid voterId v" by simp
  have nine: "netVotesOf pid (votes ?d1) = 9"
    using netVotesOf_drop_up [OF f v] ten by simp
  from castVote_up_new [OF p1 n1, of now'] nine
  obtain r2 d2 where r2: "castVote pid ''up'' voterId now' ?d1 = (Inr r2, d2)"
    "resp_netVotes r2 = 10" "resp_milestone r2 \<noteq> None"
    by (auto simp: milestoneOf_def)
  from r1 r2
  show "\<exists>r1 d1 r2 d2. castVote pid ''up'' voterId now d = (Inr r1, d1) \<and>
         resp_netVotes r1 = 9 \<and> resp_milestone r1 = None \<and>
         castVote pid ''up'' voterId now' d1 = (Inr r2, d2) \<and>
         resp_netVotes r2 = 10 \<and> resp_milestone r2 \<noteq> None"
    by blast
qed

section \<open>Facts about bookmarks\<close>

lemma toggleBookmark_remove:
  assumes "\<exists>b\<in>set (bookmarks d). isBookmarkOf pid userId b"
  shows "\<exists>xs b ys. bookmarks d = xs @ b # ys \<and> isBookmarkOf pid userId b \<and>
           (\<forall>x\<in>set xs. \<not> isBookmarkOf pid userId x) \<and>
           toggleBookmark pid userId now d = (Inr False, d\<lparr>bookmarks := xs @ ys\<rparr>)"
proof -
  from assms obtain i where i: "findIndex (isBookmarkOf pid userId) (bookmarks d) = Some i"
    using findIndex_Some_ex [of _ "bookmarks d" "isBookmarkOf pid userId"] by blast
  from findIndex_split [OF i] obtain xs b ys where
    s: "bookmarks d = xs @ b # ys" "isBookmarkOf pid userId b"
       "\<forall>x\<in>set xs. \<not> isBookmarkOf pid userId x" "splice1 i (bookmarks d) = xs @ ys"
    by blast
  from i s(4) have "toggleBookmark pid userId now d = (Inr False, d\<lparr>bookmarks := xs @ ys\<rparr>)"
    by (simp add: toggleBookmark_def)
  with s(1-3) show ?thesis by blast
qed

lemma toggleBookmark_insert:
  assumes "\<forall>b\<in>set (bookmarks d). \<not> isBookmarkOf pid userId b"
  shows "toggleBookmark pid userId now d =
           (Inr True, d\<lparr>bookmarks := bookmarks d @
             [\<lparr>bookmark_postId = pid, bookmark_userId = userId, bookmark_timestamp = now\<rparr>]\<rparr>)"
  using assms findIndex_None_iff [of "isBookmarkOf pid userId" "bookmarks d"]
  by (simp add: toggleBookmark_def)

lemma toggleBookmark_remove_unique:
  assumes e: "\<exists>b\<in>set (bookmarks d). isBookmarkOf pid userId b"
      and u: "length (filter (isBookmarkOf pid userId) (bookmarks d)) \<le> 1"
  shows "toggleBookmark pid userId now d =
           (Inr False, d\<lparr>bookmarks := filter (\<lambda>b. \<not> isBookmarkOf pid userId b) (bookmarks d)\<rparr>)"
proof -
  from e obtain i where i: "findIndex (isBookmarkOf pid userId) (bookmarks d) = Some i"
    using findIndex_Some_ex [of _ "bookmarks d" "isBookmarkOf pid userId"] by blast
  from splice1_unique [OF i u] i show ?thesis
    by (simp add: toggleBookmark_def)
qed

lemma isBookmarked_iff:
  "isBookmarked pid userId d = (\<exists>b\<in>set (bookmarks d). isBookmarkOf pid userId b)"
  by (simp add: isBookmarked_def list_ex_iff)

lemma toggleBookmark_twice:
  assumes u: "length (filter (isBookmarkOf pid userId) (bookmarks d)) \<le> 1"
  shows "isBookmarked pid userId (snd (toggleBookmark pid userId now d)) =
           (\<not> isBookmarked pid userId d) \<and>
         isBookmarked pid userId
           (snd (toggleBookmark pid userId now' (snd (toggleBookmark pid userId now d)))) =
           isBookmarked pid userId d \<and>
         length (filter (isBookmarkOf pid userId) (bookmarks
           (snd (toggleBookmark pid userId now' (snd (toggleBookmark pid userId now d)))))) =
           length (filter (isBookmarkOf pid userId) (bookmarks d)) \<and>
         filter (\<lambda>b. \<not> isBookmarkOf pid userId b) (bookmarks
           (snd (toggleBookmark pid userId now' (snd (toggleBookmark pid userId now d))))) =
           filter (\<lambda>b. \<not> isBookmarkOf pid userId b) (bookmarks d)"
proof (cases "\<exists>b\<in>set (bookmarks d). isBookmarkOf pid userId b")
  case True
  let ?d1 = "d\<lparr>bookmarks := filter (\<lambda>b. \<not> isBookmarkOf pid userId b) (bookmarks d)\<rparr>"
  have one: "toggleBookmark pid userId now d = (Inr False, ?d1)"
    using True u by (rule toggleBookmark_remove_unique)
  have n1: "\<forall>b\<in>set (bookmarks ?d1). \<not> isBookmarkOf pid userId b" by simp
  have two: "toggleBookmark pid userId now' ?d1 =
     (Inr True, ?d1\<lparr>bookmarks := bookmarks ?d1 @
        [\<lparr>bookmark_postId = pid, bookmark_userId = userId, bookmark_timestamp = now'\<rparr>]\<rparr>)"
    using n1 by (rule toggleBookmark_insert)
  from True obtain b where b: "b \<in> set (bookmarks d)" "isBookmarkOf pid userId b" by blast
  have f: "filter (isBookmarkOf pid userId) (bookmarks d) = [b]"
    using u b by (rule filter_single)
  have s1: "snd (toggleBookmark pid userId now d) = ?d1"
    unfolding one by simp
  have s2: "snd (toggleBookmark pid userId now' ?d1) = ?d1\<lparr>bookmarks := bookmarks ?d1 @
        [\<lparr>bookmark_postId = pid, bookmark_userId = userId, bookmark_timestamp = now'\<rparr>]\<rparr>"
    unfolding two by simp
  show ?thesis
    unfolding s1 s2 using True f by (simp add: isBookmarked_iff)
next
  case False
  then have n: "\<forall>b\<in>set (bookmarks d). \<not> isBookmarkOf pid userId b" by simp
  let ?new = "\<lparr>bookmark_postId = pid, bookmark_userId = userId, bookmark_timestamp = now\<rparr>"
  let ?d1 = "d\<lparr>bookmarks := bookmarks d @ [?new]\<rparr>"
  have one: "toggleBookmark pid userId now d = (Inr True, ?d1)"
    using n by (rule toggleBookmark_insert)
  from n have fe: "filter (isBookmarkOf pid userId) (bookmarks d) = []"
    by (simp add: filter_empty_conv)
  from n have fa: "filter (\<lambda>b. \<not> isBookmarkOf pid userId b) (bookmarks d) = bookmarks d"
    by (simp add: filter_id_conv)
  have e1: "\<exists>b\<in>set (bookmarks ?d1). isBookmarkOf pid userId b" by simp
  have u1: "length (filter (isBookmarkOf pid userId) (bookmarks ?d1)) \<le> 1"
    using fe by simp
  have two: "toggleBookmark pid userId now' ?d1 =
     (Inr False, ?d1\<lparr>bookmarks := filter (\<lambda>b. \<not> isBookmarkOf pid userId b) (bookmarks ?d1)\<rparr>)"
    using e1 u1 by (rule toggleBookmark_remove_unique)
  have s1: "snd (toggleBookmark pid userId now d) = ?d1"
    unfolding one by simp
  have s2: "snd (toggleBookmark pid userId now' ?d1) =
      ?d1\<lparr>bookmarks := filter (\<lambda>b. \<not> isBookmarkOf pid userId b) (bookmarks ?d1)\<rparr>"
    unfolding two by simp
  show ?thesis
    unfolding s1 s2 using False fe fa by (simp add: isBookmarked_iff)
qed

text \<open>A store in which every (postId, userId) pair has at most one bookmark stays so.\<close>

lemma toggleBookmark_keeps_unique:
  assumes "distinct (map (\<lambda>b. (bookmark_postId b, bookmark_userId b)) (bookmarks d))"
  shows "distinct (map (\<lambda>b. (bookmark_postId b, bookmark_userId b))
           (bookmarks (snd (toggleBookmark pid userId now d))))"
proof (cases "findIndex (isBookmarkOf pid userId) (bookmarks d)")
  case None
  then have "\<forall>b\<in>set (bookmarks d). \<not> isBookmarkOf pid userId b"
    by (simp add: findIndex_None_iff)
  with None assms show ?thesis
    by (auto simp: toggleBookmark_def)
next
  case (Some i)
  from findIndex_Some_D [OF Some] have i: "i < length (bookmarks d)" by simp
  have "bookmarks d = take i (bookmarks d) @ bookmarks d ! i # drop (Suc i) (bookmarks d)"
    using i by (rule id_take_nth_drop)
  then have "distinct (map (\<lambda>b. (bookmark_postId b, bookmark_userId b))
      (take i (bookmarks d) @ bookmarks d ! i # drop (Suc i) (bookmarks d)))"
    using assms by simp
  then have "distinct (map (\<lambda>b. (bookmark_postId b, bookmark_userId b))
      (splice1 i (bookmarks d)))"
    by (simp add: splice1_def)
  with Some show ?thesis by (simp add: toggleBookmark_def)
qed

section \<open>Facts about deleting, banning and reporting\<close>


lemma unlinkMedia_Inl: "None \<in> set files \<Longrightarrow> unlinkMedia files = Inl Internal"
  by (induction files rule: unlinkMedia.induct) auto







lemma deletePost_null_media:
  assumes "find (\<lambda>p. post_id p = pid) (posts d) = Some q"
      and "post_ownerId q = voterId" and "None \<in> set (post_media q)"
  shows "deletePost pid voterId d = (Inl Internal, d)"
  using assms unlinkMedia_Inl [of "post_media q"] by (simp add: deletePost_def)

text \<open>With \<^verbatim>\<open>deletePosts\<close> the two filters of the ban handler keep every element: a post they
  find in the filtered array is never one of the banned identity. So the handler never removes
  a comment or a vote.\<close>

lemma ban_filter_keeps_all:
  "filter (\<lambda>x. case find (\<lambda>p. post_id p = key x) (filter (\<lambda>p. post_ownerId p \<noteq> voterId) ps) of
                 None \<Rightarrow> True | Some post \<Rightarrow> post_ownerId post \<noteq> voterId) xs = xs"
proof -
  have "case find (\<lambda>p. post_id p = k) (filter (\<lambda>p. post_ownerId p \<noteq> voterId) ps) of
          None \<Rightarrow> True | Some post \<Rightarrow> post_ownerId post \<noteq> voterId" for k
    by (auto split: option.split simp: find_Some_iff dest!: nth_mem)
  then show ?thesis by (simp add: filter_id_conv)
qed

lemma banIdentity_keeps_comments_votes:
  assumes "banIdentity voterId deletePosts banned d = (res, banned', d')"
  shows "comments d' = comments d \<and> votes d' = votes d"
  using assms
    ban_filter_keeps_all [where key = comment_postId and voterId = voterId and ps = "posts d"
      and xs = "comments d"]
    ban_filter_keeps_all [where key = vote_postId and voterId = voterId and ps = "posts d"
      and xs = "votes d"]
  by (auto simp: banIdentity_def Let_def split: if_splits)

text \<open>What a ban does: the identity is on the banned list after it (with no error when it was
  there before), with \<^verbatim>\<open>deletePosts\<close> the posts of the identity are removed and the posts
  of others stay, and comments, votes and bookmarks are as before.\<close>

lemma banIdentity_effect:
  assumes "voterId \<noteq> []"
  shows "\<exists>banned' d'. banIdentity voterId deletePosts banned d = (Inr (), banned', d') \<and>
           voterId \<in> set banned' \<and> set banned' = insert voterId (set banned) \<and>
           (voterId \<in> set banned \<longrightarrow> banned' = banned) \<and>
           posts d' = (if deletePosts then filter (\<lambda>p. post_ownerId p \<noteq> voterId) (posts d)
                       else posts d) \<and>
           comments d' = comments d \<and> votes d' = votes d \<and> bookmarks d' = bookmarks d"
  using assms
    ban_filter_keeps_all [where key = comment_postId and voterId = voterId and ps = "posts d"
      and xs = "comments d"]
    ban_filter_keeps_all [where key = vote_postId and voterId = voterId and ps = "posts d"
      and xs = "votes d"]
  by (auto simp: banIdentity_def Let_def)

text \<open>The two answers to a report.\<close>

lemma submitReport_NotFound:
  assumes "\<forall>p\<in>set (posts d). post_id p \<noteq> pid"
  shows "submitReport pid reason reporterId newId now d = (Inl NotFound, d)"
proof -
  from assms have "find (\<lambda>p. post_id p = pid) (posts d) = None"
    by (simp add: find_None_iff)
  then show ?thesis by (simp add: submitReport_def)
qed

lemma submitReport_found:
  assumes "\<exists>p\<in>set (posts d). post_id p = pid"
  shows "submitReport pid reason reporterId newId now d =
           (Inr (), d\<lparr>reports := reports d @
              [\<lparr>report_id = newId, report_postId = pid,
                report_reason = (if reason = [] then ''No reason provided'' else reason),
                report_reportedBy = reporterId, report_timestamp = now,
                report_status = None\<rparr>]\<rparr>)"
proof -
  from assms obtain q where "find (\<lambda>p. post_id p = pid) (posts d) = Some q"
    using find_Some_ex [of _ "posts d" "\<lambda>p. post_id p = pid"] by blast
  then show ?thesis by (simp add: submitReport_def)
qed

text \<open>Behind the ban gate a post with rejected content is answered 403 for a banned
  identity and 400 otherwise; the store is the one it was in both cases.\<close>

lemma createPost_behind_checkBan:
  assumes "trim content = [] \<or> 1000 < length content"
  shows "checkBan banned ownerId (createPost content tags media ownerId newId now color) d =
           (if ownerId \<in> set banned then (Inl Forbidden, d) else (Inl InvalidArgument, d))"
  using assms by (auto simp: checkBan_def createPost_def)

section \<open>Facts about runs of the server\<close>

text \<open>
  Every handler keeps the invariants of the data model, so every snapshot the server builds
  from the empty one has them: no handler sequence leaves two posts with one id, two votes of
  one (postId, voterId) pair or two bookmarks of one (postId, userId) pair.
\<close>

lemma distinct_map_splice1:
  assumes "distinct (map f xs)"
  shows "distinct (map f (splice1 i xs))"
proof -
  have "map f (splice1 i xs) = take i (map f xs) @ drop (Suc i) (map f xs)"
    by (simp add: splice1_def take_map drop_map)
  moreover have "set (take i (map f xs)) \<inter> set (drop (Suc i) (map f xs)) = {}"
    using assms by (intro set_take_disj_set_drop_if_distinct) simp_all
  ultimately show ?thesis
    using assms by (simp add: distinct_take distinct_drop)
qed

lemma store_invariant_initializeDB: "store_invariant initializeDB"
  by (simp add: store_invariant_def initializeDB_def votes_unique_def)

lemma store_invariant_checkBan:
  "store_invariant d \<Longrightarrow> store_invariant (snd (handler d)) \<Longrightarrow>
     store_invariant (snd (checkBan banned voterId handler d))"
  by (simp add: checkBan_def)

lemma store_invariant_createPost:
  "store_invariant d \<Longrightarrow> newId \<notin> set (map post_id (posts d)) \<Longrightarrow>
     store_invariant (snd (createPost content tags media ownerId newId now color d))"
  by (auto simp: createPost_def store_invariant_def Let_def)

lemma store_invariant_castVote:
  assumes "store_invariant d"
  shows "store_invariant (snd (castVote pid type voterId now d))"
  using assms castVote_snd [of pid type voterId now d]
    votes_unique_updateVotes [of "votes d" pid type voterId now]
  by (auto simp: store_invariant_def)

lemma toggleBookmark_others:
  "posts (snd (toggleBookmark pid userId now d)) = posts d \<and>
   votes (snd (toggleBookmark pid userId now d)) = votes d"
  by (simp add: toggleBookmark_def split: option.split)

lemma store_invariant_toggleBookmark:
  assumes "store_invariant d"
  shows "store_invariant (snd (toggleBookmark pid userId now d))"
  using assms toggleBookmark_keeps_unique [of d pid userId now]
    toggleBookmark_others [of pid userId now d]
  by (simp add: store_invariant_def)

lemma store_invariant_addComment:
  "store_invariant d \<Longrightarrow> store_invariant (snd (addComment pid content newId now d))"
  by (auto simp: addComment_def store_invariant_def Let_def split: option.split)

lemma store_invariant_submitReport:
  "store_invariant d \<Longrightarrow>
     store_invariant (snd (submitReport pid reason reporterId newId now d))"
  by (auto simp: submitReport_def store_invariant_def split: option.split)

lemma store_invariant_deletePost:
  "store_invariant d \<Longrightarrow> store_invariant (snd (deletePost pid voterId d))"
  by (auto simp: deletePost_def store_invariant_def votes_unique_def distinct_map_filter
      split: option.split sum.split)

lemma store_invariant_adminDeletePost:
  "store_invariant d \<Longrightarrow> store_invariant (snd (adminDeletePost pid d))"
  by (auto simp: adminDeletePost_def store_invariant_def votes_unique_def distinct_map_filter
      distinct_map_splice1 split: option.split sum.split)

lemma store_invariant_banIdentity:
  "store_invariant d \<Longrightarrow>
     store_invariant (snd (snd (banIdentity voterId deletePosts banned d)))"
  by (auto simp: banIdentity_def store_invariant_def votes_unique_def distinct_map_filter Let_def)

lemma store_invariant_handle:
  assumes "store_invariant (snd s)"
  shows "store_invariant (snd (handle r s))"
proof -
  obtain banned d where s: "s = (banned, d)" by (cases s)
  with assms have d: "store_invariant d" by simp
  show ?thesis
    unfolding s using d
    by (cases r)
      (simp_all add: store_invariant_checkBan store_invariant_createPost
        store_invariant_castVote store_invariant_toggleBookmark store_invariant_addComment
        store_invariant_submitReport store_invariant_deletePost
        store_invariant_adminDeletePost store_invariant_banIdentity)
qed

lemma store_invariant_serve:
  "store_invariant (snd s) \<Longrightarrow> store_invariant (snd (serve rs s))"
  by (induction rs arbitrary: s) (simp_all add: store_invariant_handle)

lemma served_store_invariant:
  "store_invariant (snd (serve rs (banned, initializeDB)))"
  by (rule store_invariant_serve) (simp add: store_invariant_initializeDB)

lemma store_invariant_le1:
  assumes "store_invariant d"
  shows "length (filter (\<lambda>p. post_id p = pid) (posts d)) \<le> 1"
    and "length (filter (isVoteOf pid voterId) (votes d)) \<le> 1"
    and "length (filter (isBookmarkOf pid userId) (bookmarks d)) \<le> 1"
proof -
  from assms have "distinct (map post_id (posts d))"
    by (simp add: store_invariant_def)
  then show "length (filter (\<lambda>p. post_id p = pid) (posts d)) \<le> 1"
    by (rule distinct_map_filter_le1)
  from assms have "votes_unique (votes d)"
    by (simp add: store_invariant_def)
  then show "length (filter (isVoteOf pid voterId) (votes d)) \<le> 1"
    by (rule votes_unique_le1)
  from assms have "distinct (map (\<lambda>b. (bookmark_postId b, bookmark_userId b)) (bookmarks d))"
    by (simp add: store_invariant_def)
  from distinct_map_filter_le1 [OF this, of "(pid, userId)"]
  show "length (filter (isBookmarkOf pid userId) (bookmarks d)) \<le> 1" by simp
qed

section \<open>Facts about the sort\<close>

lemma insertBy_insort_key:
  fixes f :: "'a \<Rightarrow> int"
  shows "insertBy (\<lambda>a b. f b - f a) x ys = insort_key (\<lambda>v. - f v) x ys"
  by (induction ys) auto

lemma sortBy_sort_key:
  fixes f :: "'a \<Rightarrow> int"
  shows "sortBy (\<lambda>a b. f b - f a) xs = sort_key (\<lambda>v. - f v) xs"
  by (induction xs) (simp_all add: sortBy_def insertBy_insort_key)

lemma sortBy_descending:
  fixes f :: "'a \<Rightarrow> int"
  shows "sorted_wrt (\<lambda>a b. f a \<ge> f b) (sortBy (\<lambda>a b. f b - f a) xs)"
proof -
  have "sorted (map (\<lambda>v. - f v) (sort_key (\<lambda>v. - f v) xs))"
    by (rule sorted_sort_key)
  then show ?thesis
    by (simp add: sortBy_sort_key sorted_map)
qed

lemma sortBy_stable:
  fixes f :: "'a \<Rightarrow> int"
  shows "filter (\<lambda>v. f v = k) (sortBy (\<lambda>a b. f b - f a) xs) = filter (\<lambda>v. f v = k) xs"
proof -
  have "filter (\<lambda>v. - f v = - k) (sort_key (\<lambda>v. - f v) xs) = filter (\<lambda>v. - f v = - k) xs"
    by (rule sort_key_stable)
  then show ?thesis by (simp add: sortBy_sort_key)
qed

lemma sortBy_set:
  fixes f :: "'a \<Rightarrow> int"
  shows "set (sortBy (\<lambda>a b. f b - f a) xs) = set xs"
    and "length (sortBy (\<lambda>a b. f b - f a) xs) = length xs"
  by (simp_all add: sortBy_sort_key)

lemma enrich_fields:
  "view_post (enrich voterId d p) = p"
  "view_netVotes (enrich voterId d p) =
     int (length (filter (\<lambda>x. vote_postId x = post_id p \<and> vote_type x = ''up'') (votes d))) -
     int (length (filter (\<lambda>x. vote_postId x = post_id p \<and> vote_type x = ''down'') (votes d)))"
  by (simp_all add: enrich_def Let_def conj_commute)

section \<open>The claims\<close>

subsection \<open>C1: the three transitions of a vote\<close>

text \<open>
  C1. For every \<open>castVote\<close> call where a post with the id exists and the direction is
  \<open>up\<close> or \<open>down\<close>, on a store of the data model, that is one with at most one vote of the
  pair (postId, voterId): the call succeeds and changes nothing but the vote array; if the
  store holds a vote of the pair with the same direction, that vote is removed and every
  other vote stays, and \<open>userVote\<close> is null; if it holds a vote of the pair with the other
  direction, that vote's direction is overwritten in place (the array keeps its length and
  every other vote) and \<open>userVote\<close> is the requested direction; if it holds no vote of the
  pair, a new vote with the given direction is appended and \<open>userVote\<close> is the requested
  direction. Every snapshot the server builds has at most one vote of each pair
  (\<open>served_store_invariant\<close>, \<open>store_invariant_le1\<close>).
\<close>

theorem castVote_toggle:
  assumes t: "type = ''up'' \<or> type = ''down''"
      and p: "\<exists>p\<in>set (posts d). post_id p = pid"
      and u: "length (filter (isVoteOf pid voterId) (votes d)) \<le> 1"
  shows "\<exists>r vs'. castVote pid type voterId now d = (Inr r, d\<lparr>votes := vs'\<rparr>) \<and>
     ((\<exists>v\<in>set (votes d). isVoteOf pid voterId v \<and> vote_type v = type) \<longrightarrow>
        vs' = filter (\<lambda>v. \<not> isVoteOf pid voterId v) (votes d) \<and> resp_userVote r = None) \<and>
     ((\<exists>v\<in>set (votes d). isVoteOf pid voterId v \<and> vote_type v \<noteq> type) \<longrightarrow>
        vs' = map (\<lambda>v. if isVoteOf pid voterId v then v\<lparr>vote_type := type\<rparr> else v) (votes d) \<and>
        length vs' = length (votes d) \<and> resp_userVote r = Some type) \<and>
     ((\<forall>v\<in>set (votes d). \<not> isVoteOf pid voterId v) \<longrightarrow>
        vs' = votes d @ [\<lparr>vote_postId = pid, vote_voterId = voterId, vote_type = type,
                          vote_timestamp = now\<rparr>] \<and> resp_userVote r = Some type)"
proof -
  let ?vs = "updateVotes pid type voterId now (votes d)"
  from t have ne: "type \<noteq> []" by auto
  from p obtain q where q: "q \<in> set (posts d)" "post_id q = pid" by blast
  from castVote_ok [OF t q, of voterId now]
  obtain r where r: "castVote pid type voterId now d = (Inr r, d\<lparr>votes := ?vs\<rparr>)"
    and rv: "resp_userVote r = userVoteOf pid voterId ?vs"
    by simp
  have a: "(\<exists>v\<in>set (votes d). isVoteOf pid voterId v \<and> vote_type v = type) \<longrightarrow>
        ?vs = filter (\<lambda>v. \<not> isVoteOf pid voterId v) (votes d) \<and> resp_userVote r = None"
  proof
    assume "\<exists>v\<in>set (votes d). isVoteOf pid voterId v \<and> vote_type v = type"
    then obtain v where v: "v \<in> set (votes d)" "isVoteOf pid voterId v" "vote_type v = type"
      by blast
    have e: "?vs = filter (\<lambda>v. \<not> isVoteOf pid voterId v) (votes d)"
      using u v by (rule updateVotes_same)
    have "userVoteOf pid voterId ?vs = None"
      unfolding e by (rule userVote_after_same)
    with e rv show "?vs = filter (\<lambda>v. \<not> isVoteOf pid voterId v) (votes d) \<and> resp_userVote r = None"
      by simp
  qed
  have b: "(\<exists>v\<in>set (votes d). isVoteOf pid voterId v \<and> vote_type v \<noteq> type) \<longrightarrow>
        ?vs = map (\<lambda>v. if isVoteOf pid voterId v then v\<lparr>vote_type := type\<rparr> else v) (votes d) \<and>
        length ?vs = length (votes d) \<and> resp_userVote r = Some type"
  proof
    assume "\<exists>v\<in>set (votes d). isVoteOf pid voterId v \<and> vote_type v \<noteq> type"
    then obtain v where v: "v \<in> set (votes d)" "isVoteOf pid voterId v" "vote_type v \<noteq> type"
      by blast
    have e: "?vs = map (\<lambda>v. if isVoteOf pid voterId v then v\<lparr>vote_type := type\<rparr> else v) (votes d)"
      using u v by (rule updateVotes_other)
    have "userVoteOf pid voterId ?vs = Some type"
      unfolding e using v(1,2) ne by (rule userVote_after_other)
    moreover have "length ?vs = length (votes d)"
      unfolding e by simp
    ultimately show "?vs = map (\<lambda>v. if isVoteOf pid voterId v then v\<lparr>vote_type := type\<rparr> else v) (votes d) \<and>
        length ?vs = length (votes d) \<and> resp_userVote r = Some type"
      using e rv by simp
  qed
  have c: "(\<forall>v\<in>set (votes d). \<not> isVoteOf pid voterId v) \<longrightarrow>
        ?vs = votes d @ [\<lparr>vote_postId = pid, vote_voterId = voterId, vote_type = type,
                          vote_timestamp = now\<rparr>] \<and> resp_userVote r = Some type"
  proof
    assume n: "\<forall>v\<in>set (votes d). \<not> isVoteOf pid voterId v"
    have e: "?vs = votes d @ [\<lparr>vote_postId = pid, vote_voterId = voterId, vote_type = type,
                          vote_timestamp = now\<rparr>]"
      using n by (rule updateVotes_none)
    have "userVoteOf pid voterId ?vs = Some type"
      unfolding e using n ne by (rule userVote_after_none)
    with e rv show "?vs = votes d @ [\<lparr>vote_postId = pid, vote_voterId = voterId, vote_type = type,
                          vote_timestamp = now\<rparr>] \<and> resp_userVote r = Some type"
      by simp
  qed
  show ?thesis
    by (rule exI [of _ r], rule exI [of _ ?vs], intro conjI) (rule r a b c)+
qed

text \<open>The theorem at a store with one post and the voter's up vote on it: a second up vote
  removes the vote, a down vote overwrites it, and another voter's vote is appended.\<close>

theorem castVote_toggle_witness:
  "(\<exists>p\<in>set [aPost ''p1'' ''o1'']. post_id p = ''p1'') \<and>
   length (filter (isVoteOf ''p1'' ''v1'') [aVote ''p1'' ''v1'' ''up'' ''t1'']) \<le> 1 \<and>
   length (filter (isVoteOf ''p1'' ''v2'') [aVote ''p1'' ''v1'' ''up'' ''t1'']) \<le> 1 \<and>
   (\<exists>r. castVote ''p1'' ''up'' ''v1'' ''t2''
      (initializeDB\<lparr>posts := [aPost ''p1'' ''o1''], votes := [aVote ''p1'' ''v1'' ''up'' ''t1'']\<rparr>) =
     (Inr r, (initializeDB\<lparr>posts := [aPost ''p1'' ''o1'']\<rparr>)) \<and>
     resp_userVote r = None) \<and>
   (\<exists>r. castVote ''p1'' ''down'' ''v1'' ''t2''
      (initializeDB\<lparr>posts := [aPost ''p1'' ''o1''], votes := [aVote ''p1'' ''v1'' ''up'' ''t1'']\<rparr>) =
     (Inr r, (initializeDB\<lparr>posts := [aPost ''p1'' ''o1''],
       votes := [aVote ''p1'' ''v1'' ''down'' ''t1'']\<rparr>)) \<and>
     resp_userVote r = Some ''down'') \<and>
   (\<exists>r. castVote ''p1'' ''down'' ''v2'' ''t2''
      (initializeDB\<lparr>posts := [aPost ''p1'' ''o1''], votes := [aVote ''p1'' ''v1'' ''up'' ''t1'']\<rparr>) =
     (Inr r, (initializeDB\<lparr>posts := [aPost ''p1'' ''o1''],
       votes := [aVote ''p1'' ''v1'' ''up'' ''t1'', aVote ''p1'' ''v2'' ''down'' ''t2'']\<rparr>)) \<and>
     resp_userVote r = Some ''down'')"
  using castVote_toggle [of "''up''"
      "(initializeDB\<lparr>posts := [aPost ''p1'' ''o1''],
        votes := [aVote ''p1'' ''v1'' ''up'' ''t1'']\<rparr>)" "''p1''" "''v1''" "''t2''"]
    castVote_toggle [of "''down''"
      "(initializeDB\<lparr>posts := [aPost ''p1'' ''o1''],
        votes := [aVote ''p1'' ''v1'' ''up'' ''t1'']\<rparr>)" "''p1''" "''v1''" "''t2''"]
    castVote_toggle [of "''down''"
      "(initializeDB\<lparr>posts := [aPost ''p1'' ''o1''],
        votes := [aVote ''p1'' ''v1'' ''up'' ''t1'']\<rparr>)" "''p1''" "''v2''" "''t2''"]
  by (auto simp: initializeDB_def)

subsection \<open>C2: at most one vote for each pair\<close>

text \<open>
  C2. For every store in which each (postId, voterId) pair has at most one vote, every
  \<open>castVote\<close> call leaves a store with that property, and so does every sequence of calls:
  the vote array holds 0 or 1 entries for each pair. The \<open>netVotes\<close> a call answers after
  any such sequence is the number of the post's up votes minus the number of its down votes
  in the vote array the call leaves.
\<close>

theorem castVote_votes_unique:
  assumes "votes_unique (votes d)"
  shows "votes_unique (votes (snd (castVote pid type voterId now d))) \<and>
         votes_unique (votes (castVotes calls d)) \<and>
         (\<forall>p u. length (filter (isVoteOf p u) (votes (castVotes calls d))) \<le> 1) \<and>
         (\<forall>r d'. castVote pid type voterId now (castVotes calls d) = (Inr r, d') \<longrightarrow>
            votes_unique (votes d') \<and>
            resp_netVotes r =
              int (length (filter (\<lambda>v. vote_postId v = pid \<and> vote_type v = ''up'') (votes d'))) -
              int (length (filter (\<lambda>v. vote_postId v = pid \<and> vote_type v = ''down'') (votes d'))))"
proof (intro conjI allI impI)
  show "votes_unique (votes (snd (castVote pid type voterId now d)))"
    using assms by (rule votes_unique_castVote)
  show u: "votes_unique (votes (castVotes calls d))"
    using assms by (rule votes_unique_castVotes)
  show "length (filter (isVoteOf p u) (votes (castVotes calls d))) \<le> 1" for p u
    using u by (rule votes_unique_le1)
  fix r d'
  assume c: "castVote pid type voterId now (castVotes calls d) = (Inr r, d')"
  from votes_unique_castVote [OF u, of pid type voterId now] c
  show "votes_unique (votes d')" by simp
  from castVote_Inr_D [OF c] netVotesOf_count [of pid "votes d'"]
  show "resp_netVotes r =
              int (length (filter (\<lambda>v. vote_postId v = pid \<and> vote_type v = ''up'') (votes d'))) -
              int (length (filter (\<lambda>v. vote_postId v = pid \<and> vote_type v = ''down'') (votes d')))"
    by simp
qed

text \<open>The theorem at a store with one vote, for a switch to \<open>down\<close> followed by another
  voter's up vote, and a third call after the two.\<close>

theorem castVote_votes_unique_witness:
  "votes_unique [aVote ''p1'' ''v1'' ''up'' ''t1''] \<and>
   votes (castVotes [(''p1'', ''down'', ''v1'', ''t2''), (''p1'', ''up'', ''v2'', ''t3'')]
      (initializeDB\<lparr>posts := [aPost ''p1'' ''o1''],
        votes := [aVote ''p1'' ''v1'' ''up'' ''t1'']\<rparr>)) =
     [aVote ''p1'' ''v1'' ''down'' ''t1'', aVote ''p1'' ''v2'' ''up'' ''t3''] \<and>
   votes_unique (votes (castVotes [(''p1'', ''down'', ''v1'', ''t2''), (''p1'', ''up'', ''v2'', ''t3'')]
      (initializeDB\<lparr>posts := [aPost ''p1'' ''o1''],
        votes := [aVote ''p1'' ''v1'' ''up'' ''t1'']\<rparr>))) \<and>
   (\<exists>r d'. castVote ''p1'' ''up'' ''v3'' ''t4''
        (castVotes [(''p1'', ''down'', ''v1'', ''t2''), (''p1'', ''up'', ''v2'', ''t3'')]
           (initializeDB\<lparr>posts := [aPost ''p1'' ''o1''],
             votes := [aVote ''p1'' ''v1'' ''up'' ''t1'']\<rparr>)) = (Inr r, d') \<and>
      votes_unique (votes d') \<and> resp_netVotes r = 1)"
  using castVote_votes_unique [of
      "(initializeDB\<lparr>posts := [aPost ''p1'' ''o1''], votes := [aVote ''p1'' ''v1'' ''up'' ''t1'']\<rparr>)"
      "''p1''" "''up''" "''v3''" "''t4''"
      "[(''p1'', ''down'', ''v1'', ''t2''), (''p1'', ''up'', ''v2'', ''t3'')]"]
  by (simp add: initializeDB_def votes_unique_def castVote_def updateVotes_def splice1_def upvotesOf_def
      downvotesOf_def milestoneOf_def userVoteOf_def)

subsection \<open>C3: deleting a post\<close>



subsection \<open>C4: banning with deletion of the posts\<close>

text \<open>
  C4 asks that a ban with \<open>deletePosts\<close> removes every post of the banned identity together
  with the comments and votes on those posts. The handler puts the identity on the banned
  list and removes the posts, but the comments and the votes on the removed posts stay. Here
  the identity \<open>o1\<close> owns the post \<open>p1\<close>, which has a comment and a vote.
\<close>

theorem banIdentity_leaves_orphans:
  "banIdentity ''o1'' True []
      (initializeDB\<lparr>posts := [aPost ''p1'' ''o1'', aPost ''p2'' ''o2''],
        comments := [aComment ''c1'' ''p1'' ''t1'', aComment ''c2'' ''p2'' ''t2''],
        votes := [aVote ''p1'' ''v1'' ''up'' ''t3'', aVote ''p2'' ''v1'' ''down'' ''t4'']\<rparr>) =
     (Inr (), [''o1''],
      (initializeDB\<lparr>posts := [aPost ''p2'' ''o2''], comments := [aComment ''c1'' ''p1'' ''t1'',
        aComment ''c2'' ''p2'' ''t2''], votes := [aVote ''p1'' ''v1'' ''up'' ''t3'',
        aVote ''p2'' ''v1'' ''down'' ''t4'']\<rparr>))"
  by (simp add: initializeDB_def banIdentity_def)

subsection \<open>C5: the milestone\<close>

text \<open>
  C5. For every successful \<open>castVote\<close> call, the answer carries a milestone if and only if
  the post's net votes after the call, counted over the vote array the call leaves as the
  number of the post's votes of type \<open>up\<close> minus the number of its votes of type \<open>down\<close>,
  is exactly 10, 50 or 100; and the \<open>netVotes\<close> of the answer is that number. A first up
  vote of a voter on a post at 9 gives 10 and a milestone; on a post at 10 it gives 11 and no
  milestone; a voter whose single up vote is withdrawn from a post at 10 gets 9 and no
  milestone, and the same voter's next up vote gives 10 and a milestone again.
\<close>

theorem castVote_milestone:
  "(\<forall>r d'. castVote pid type voterId now d = (Inr r, d') \<longrightarrow>
      resp_netVotes r =
        int (length (filter (\<lambda>v. vote_postId v = pid \<and> vote_type v = ''up'') (votes d'))) -
        int (length (filter (\<lambda>v. vote_postId v = pid \<and> vote_type v = ''down'') (votes d'))) \<and>
      (resp_milestone r \<noteq> None) =
        (int (length (filter (\<lambda>v. vote_postId v = pid \<and> vote_type v = ''up'') (votes d'))) -
         int (length (filter (\<lambda>v. vote_postId v = pid \<and> vote_type v = ''down'') (votes d'))) = 10 \<or>
         int (length (filter (\<lambda>v. vote_postId v = pid \<and> vote_type v = ''up'') (votes d'))) -
         int (length (filter (\<lambda>v. vote_postId v = pid \<and> vote_type v = ''down'') (votes d'))) = 50 \<or>
         int (length (filter (\<lambda>v. vote_postId v = pid \<and> vote_type v = ''up'') (votes d'))) -
         int (length (filter (\<lambda>v. vote_postId v = pid \<and> vote_type v = ''down'') (votes d'))) = 100)) \<and>
   ((\<exists>p\<in>set (posts d). post_id p = pid) \<and> (\<forall>v\<in>set (votes d). \<not> isVoteOf pid voterId v) \<and>
    int (length (filter (\<lambda>v. vote_postId v = pid \<and> vote_type v = ''up'') (votes d))) -
    int (length (filter (\<lambda>v. vote_postId v = pid \<and> vote_type v = ''down'') (votes d))) = 9 \<longrightarrow>
      (\<exists>r d'. castVote pid ''up'' voterId now d = (Inr r, d') \<and>
         resp_netVotes r = 10 \<and> resp_milestone r \<noteq> None)) \<and>
   ((\<exists>p\<in>set (posts d). post_id p = pid) \<and> (\<forall>v\<in>set (votes d). \<not> isVoteOf pid voterId v) \<and>
    int (length (filter (\<lambda>v. vote_postId v = pid \<and> vote_type v = ''up'') (votes d))) -
    int (length (filter (\<lambda>v. vote_postId v = pid \<and> vote_type v = ''down'') (votes d))) = 10 \<longrightarrow>
      (\<exists>r d'. castVote pid ''up'' voterId now d = (Inr r, d') \<and>
         resp_netVotes r = 11 \<and> resp_milestone r = None)) \<and>
   ((\<exists>p\<in>set (posts d). post_id p = pid) \<and>
    (\<exists>v. filter (isVoteOf pid voterId) (votes d) = [v] \<and> vote_type v = ''up'') \<and>
    int (length (filter (\<lambda>v. vote_postId v = pid \<and> vote_type v = ''up'') (votes d))) -
    int (length (filter (\<lambda>v. vote_postId v = pid \<and> vote_type v = ''down'') (votes d))) = 10 \<longrightarrow>
      (\<exists>r1 d1 r2 d2. castVote pid ''up'' voterId now d = (Inr r1, d1) \<and>
         resp_netVotes r1 = 9 \<and> resp_milestone r1 = None \<and>
         castVote pid ''up'' voterId now' d1 = (Inr r2, d2) \<and>
         resp_netVotes r2 = 10 \<and> resp_milestone r2 \<noteq> None))"
  by (rule castVote_milestone_tally [unfolded netVotesOf_count])

text \<open>The theorem at a post with nine up votes: the tenth voter's up vote gives the
  milestone.\<close>

theorem castVote_milestone_witness:
  "(\<exists>p\<in>set [aPost ''p1'' ''o1'']. post_id p = ''p1'') \<and>
   int (length (filter (\<lambda>v. vote_postId v = ''p1'' \<and> vote_type v = ''up'')
     (map (\<lambda>u. aVote ''p1'' u ''up'' ''t1'')
        [''a'', ''b'', ''c'', ''d'', ''e'', ''f'', ''g'', ''h'', ''i'']))) -
   int (length (filter (\<lambda>v. vote_postId v = ''p1'' \<and> vote_type v = ''down'')
     (map (\<lambda>u. aVote ''p1'' u ''up'' ''t1'')
        [''a'', ''b'', ''c'', ''d'', ''e'', ''f'', ''g'', ''h'', ''i'']))) = 9 \<and>
   (\<exists>r d'. castVote ''p1'' ''up'' ''j'' ''t2''
      (initializeDB\<lparr>posts := [aPost ''p1'' ''o1''],
         votes := map (\<lambda>u. aVote ''p1'' u ''up'' ''t1'')
                    [''a'', ''b'', ''c'', ''d'', ''e'', ''f'', ''g'', ''h'', ''i'']\<rparr>) = (Inr r, d') \<and>
      resp_netVotes r = 10 \<and> resp_milestone r \<noteq> None)"
  using castVote_milestone [of "''p1''" "''up''" "''j''" "''t2''"
      "initializeDB\<lparr>posts := [aPost ''p1'' ''o1''],
         votes := map (\<lambda>u. aVote ''p1'' u ''up'' ''t1'')
                    [''a'', ''b'', ''c'', ''d'', ''e'', ''f'', ''g'', ''h'', ''i'']\<rparr>"]
  by (simp add: initializeDB_def)

subsection \<open>C6: toggling a bookmark\<close>

text \<open>
  C6. For every store and every (postId, userId) pair, \<open>toggleBookmark\<close> removes the
  bookmark of the pair (the first one it finds) and answers \<open>bookmarked: false\<close> when the
  pair has one, and appends one and answers \<open>bookmarked: true\<close> otherwise. On a store of the
  data model, that is one with at most one bookmark of the pair, one call flips the
  bookmarked state of the pair, and two calls restore it: the pair is bookmarked after them
  exactly if it was before, it has as many bookmarks as before, and the bookmarks of all
  other pairs are as before. Every snapshot the server builds has at most one bookmark of
  each pair (\<open>served_store_invariant\<close>, \<open>store_invariant_le1\<close>).
\<close>

theorem toggleBookmark_involution:
  "((\<exists>b\<in>set (bookmarks d). isBookmarkOf pid userId b) \<longrightarrow>
      (\<exists>xs b ys. bookmarks d = xs @ b # ys \<and> isBookmarkOf pid userId b \<and>
         (\<forall>x\<in>set xs. \<not> isBookmarkOf pid userId x) \<and>
         toggleBookmark pid userId now d = (Inr False, d\<lparr>bookmarks := xs @ ys\<rparr>))) \<and>
   ((\<forall>b\<in>set (bookmarks d). \<not> isBookmarkOf pid userId b) \<longrightarrow>
      toggleBookmark pid userId now d =
        (Inr True, d\<lparr>bookmarks := bookmarks d @
           [\<lparr>bookmark_postId = pid, bookmark_userId = userId, bookmark_timestamp = now\<rparr>]\<rparr>)) \<and>
   (length (filter (isBookmarkOf pid userId) (bookmarks d)) \<le> 1 \<longrightarrow>
      isBookmarked pid userId (snd (toggleBookmark pid userId now d)) =
        (\<not> isBookmarked pid userId d) \<and>
      isBookmarked pid userId
        (snd (toggleBookmark pid userId now' (snd (toggleBookmark pid userId now d)))) =
        isBookmarked pid userId d \<and>
      length (filter (isBookmarkOf pid userId) (bookmarks
        (snd (toggleBookmark pid userId now' (snd (toggleBookmark pid userId now d)))))) =
        length (filter (isBookmarkOf pid userId) (bookmarks d)) \<and>
      filter (\<lambda>b. \<not> isBookmarkOf pid userId b) (bookmarks
        (snd (toggleBookmark pid userId now' (snd (toggleBookmark pid userId now d))))) =
        filter (\<lambda>b. \<not> isBookmarkOf pid userId b) (bookmarks d))"
  by (intro conjI; rule impI)
    (erule toggleBookmark_remove, erule toggleBookmark_insert, erule toggleBookmark_twice)

text \<open>The theorem at a store with one bookmark of the pair.\<close>

theorem toggleBookmark_involution_witness:
  "length (filter (isBookmarkOf ''p1'' ''u1'') [aBookmark ''p1'' ''u1'' ''t1'']) \<le> 1 \<and>
   toggleBookmark ''p1'' ''u1'' ''t2'' (initializeDB\<lparr>bookmarks := [aBookmark ''p1'' ''u1'' ''t1'']\<rparr>) =
     (Inr False, initializeDB) \<and>
   isBookmarked ''p1'' ''u1''
     (snd (toggleBookmark ''p1'' ''u1'' ''t3''
        (snd (toggleBookmark ''p1'' ''u1'' ''t2'' (initializeDB\<lparr>bookmarks := [aBookmark ''p1'' ''u1'' ''t1'']\<rparr>))))) =
   isBookmarked ''p1'' ''u1'' (initializeDB\<lparr>bookmarks := [aBookmark ''p1'' ''u1'' ''t1'']\<rparr>)"
  using toggleBookmark_involution [of "(initializeDB\<lparr>bookmarks := [aBookmark ''p1'' ''u1'' ''t1'']\<rparr>)" "''p1''" "''u1''" "''t2''" "''t3''"]
  by (simp add: initializeDB_def toggleBookmark_def splice1_def isBookmarked_def)

subsection \<open>C7: the order of the listing\<close>

text \<open>
  C7. For every store, the list \<open>listPosts\<close> answers is in descending order of \<open>netVotes\<close>;
  every entry is a stored post whose \<open>netVotes\<close> is the number of votes of type \<open>up\<close> minus
  the number of votes of type \<open>down\<close> the vote array holds for that post; and for every
  value of \<open>netVotes\<close> the entries with that value stand in the order their posts have in
  the stored post array (the sort is stable, and the listing has every stored post once).
\<close>

theorem listPosts_sorted_stable:
  "sorted_wrt (\<lambda>a b. view_netVotes a \<ge> view_netVotes b) (listPosts voterId d) \<and>
   (\<forall>v\<in>set (listPosts voterId d).
      view_post v \<in> set (posts d) \<and>
      view_netVotes v =
        int (length (filter (\<lambda>x. vote_postId x = post_id (view_post v) \<and> vote_type x = ''up'')
               (votes d))) -
        int (length (filter (\<lambda>x. vote_postId x = post_id (view_post v) \<and> vote_type x = ''down'')
               (votes d)))) \<and>
   (\<forall>k. filter (\<lambda>v. view_netVotes v = k) (listPosts voterId d) =
        filter (\<lambda>v. view_netVotes v = k) (map (enrich voterId d) (posts d))) \<and>
   map view_post (map (enrich voterId d) (posts d)) = posts d \<and>
   length (listPosts voterId d) = length (posts d)"
proof (intro conjI ballI allI)
  show "sorted_wrt (\<lambda>a b. view_netVotes a \<ge> view_netVotes b) (listPosts voterId d)"
    unfolding listPosts_def by (rule sortBy_descending)
  show "filter (\<lambda>v. view_netVotes v = k) (listPosts voterId d) =
        filter (\<lambda>v. view_netVotes v = k) (map (enrich voterId d) (posts d))" for k
    unfolding listPosts_def by (rule sortBy_stable)
  show "map view_post (map (enrich voterId d) (posts d)) = posts d"
    by (simp add: enrich_fields(1) comp_def)
  show "length (listPosts voterId d) = length (posts d)"
    by (simp add: listPosts_def sortBy_set(2))
next
  fix v
  assume "v \<in> set (listPosts voterId d)"
  then obtain p where p: "p \<in> set (posts d)" "v = enrich voterId d p"
    by (auto simp: listPosts_def sortBy_set(1))
  show "view_post v \<in> set (posts d)"
    using p by (simp add: enrich_fields(1))
  show "view_netVotes v =
        int (length (filter (\<lambda>x. vote_postId x = post_id (view_post v) \<and> vote_type x = ''up'')
               (votes d))) -
        int (length (filter (\<lambda>x. vote_postId x = post_id (view_post v) \<and> vote_type x = ''down'')
               (votes d)))"
    unfolding p(2) enrich_fields(1) by (rule enrich_fields(2))
qed

text \<open>The theorem at a store with three posts of which the second has an up vote: it comes
  first, the other two keep their order.\<close>

theorem listPosts_sorted_stable_witness:
  "sorted_wrt (\<lambda>a b. view_netVotes a \<ge> view_netVotes b)
     (listPosts ''v1'' (initializeDB\<lparr>posts := [aPost ''p1'' ''o1'', aPost ''p2'' ''o2'',
       aPost ''p3'' ''o1''], votes := [aVote ''p2'' ''v1'' ''up'' ''t1'']\<rparr>)) \<and>
   map (\<lambda>v. post_id (view_post v))
     (listPosts ''v1'' (initializeDB\<lparr>posts := [aPost ''p1'' ''o1'', aPost ''p2'' ''o2'',
       aPost ''p3'' ''o1''], votes := [aVote ''p2'' ''v1'' ''up'' ''t1'']\<rparr>)) =
     [''p2'', ''p1'', ''p3'']"
  using listPosts_sorted_stable [of "''v1''"
      "(initializeDB\<lparr>posts := [aPost ''p1'' ''o1'', aPost ''p2'' ''o2'', aPost ''p3'' ''o1''],
        votes := [aVote ''p2'' ''v1'' ''up'' ''t1'']\<rparr>)"]
  by (simp add: initializeDB_def listPosts_def sortBy_def enrich_fields)

subsection \<open>C8: rejected content\<close>

text \<open>
  C8. For every \<open>createPost\<close> call whose content is empty after trimming white space or has
  more than 1000 characters, the call fails with \<open>InvalidArgument\<close> (status 400) and the store
  is the one it was: no post is added and no record is changed.
\<close>

theorem createPost_rejects_invalid:
  "trim content = [] \<or> 1000 < length content \<Longrightarrow>
     createPost content tags media ownerId newId now color d = (Inl InvalidArgument, d)"
  by (auto simp: createPost_def)

text \<open>The theorem at a content of 1001 characters and at a content of blanks.\<close>

theorem createPost_rejects_invalid_witness:
  "1000 < length (replicate 1001 (CHR ''a'')) \<and>
   createPost (replicate 1001 (CHR ''a'')) [] [] ''o1'' ''p9'' ''t1'' 3
      (initializeDB\<lparr>posts := [aPost ''p1'' ''o1'']\<rparr>) =
     (Inl InvalidArgument, (initializeDB\<lparr>posts := [aPost ''p1'' ''o1'']\<rparr>)) \<and>
   trim ''   '' = [] \<and>
   createPost ''   '' [] [] ''o1'' ''p9'' ''t1'' 3 (initializeDB\<lparr>posts := [aPost ''p1'' ''o1'']\<rparr>) =
     (Inl InvalidArgument, (initializeDB\<lparr>posts := [aPost ''p1'' ''o1'']\<rparr>))"
  using createPost_rejects_invalid [of "replicate 1001 (CHR ''a'')" "[]" "[]" "''o1''" "''p9''"
      "''t1''" 3 "(initializeDB\<lparr>posts := [aPost ''p1'' ''o1'']\<rparr>)"]
    createPost_rejects_invalid [of "''   ''" "[]" "[]" "''o1''" "''p9''"
      "''t1''" 3 "(initializeDB\<lparr>posts := [aPost ''p1'' ''o1'']\<rparr>)"]
  by (simp add: initializeDB_def trim_def isWhiteSpace_def)

subsection \<open>C9: the stored report\<close>

text \<open>
  C9 (as amended). For every \<open>submitReport\<close> call: if no post with the id exists the call
  fails with \<open>NotFound\<close> and the store is the one it was; otherwise exactly one report is
  appended, whose id, post id, reporter and timestamp are those of the call and whose reason
  is the given one, or \<open>No reason provided\<close> when none was given; the report has no status,
  and nothing else in the store changes.
\<close>

theorem submitReport_appends:
  "((\<forall>p\<in>set (posts d). post_id p \<noteq> pid) \<longrightarrow>
      submitReport pid reason reporterId newId now d = (Inl NotFound, d)) \<and>
   ((\<exists>p\<in>set (posts d). post_id p = pid) \<longrightarrow>
      submitReport pid reason reporterId newId now d =
        (Inr (), d\<lparr>reports := reports d @
           [\<lparr>report_id = newId, report_postId = pid,
             report_reason = (if reason = [] then ''No reason provided'' else reason),
             report_reportedBy = reporterId, report_timestamp = now,
             report_status = None\<rparr>]\<rparr>))"
  by (intro conjI; rule impI) (erule submitReport_NotFound, erule submitReport_found)

text \<open>The theorem at a store with one post, for a report on it and for a report on a post
  id that no post has.\<close>

theorem submitReport_appends_witness:
  "(\<exists>p\<in>set [aPost ''p1'' ''o1'']. post_id p = ''p1'') \<and>
   submitReport ''p1'' ''spam'' ''u1'' ''r1'' ''t1'' (initializeDB\<lparr>posts := [aPost ''p1'' ''o1'']\<rparr>) =
     (Inr (),
      initializeDB\<lparr>posts := [aPost ''p1'' ''o1''],
        reports := [\<lparr>report_id = ''r1'', report_postId = ''p1'', report_reason = ''spam'',
                     report_reportedBy = ''u1'', report_timestamp = ''t1'',
                     report_status = None\<rparr>]\<rparr>) \<and>
   submitReport ''p2'' ''spam'' ''u1'' ''r1'' ''t1'' (initializeDB\<lparr>posts := [aPost ''p1'' ''o1'']\<rparr>) =
     (Inl NotFound, (initializeDB\<lparr>posts := [aPost ''p1'' ''o1'']\<rparr>))"
  using submitReport_appends [of "(initializeDB\<lparr>posts := [aPost ''p1'' ''o1'']\<rparr>)" "''p1''" "''spam''" "''u1''" "''r1''" "''t1''"]
    submitReport_appends [of "(initializeDB\<lparr>posts := [aPost ''p1'' ''o1'']\<rparr>)" "''p2''" "''spam''" "''u1''" "''r1''" "''t1''"]
  by (simp add: initializeDB_def)

text \<open>
  C9 as stated fails at every report on a stored post: the status of the report the handler
  appends is not \<open>pending\<close>, the report has none. The server has no route that writes or
  reads a report status.
\<close>

theorem submitReport_status_counterexample:
  "reports (snd (submitReport ''p1'' ''spam'' ''u1'' ''r1'' ''t1'' (initializeDB\<lparr>posts := [aPost ''p1'' ''o1'']\<rparr>))) =
     [\<lparr>report_id = ''r1'', report_postId = ''p1'', report_reason = ''spam'',
       report_reportedBy = ''u1'', report_timestamp = ''t1'', report_status = None\<rparr>] \<and>
   report_status (last (reports (snd
     (submitReport ''p1'' ''spam'' ''u1'' ''r1'' ''t1'' (initializeDB\<lparr>posts := [aPost ''p1'' ''o1'']\<rparr>))))) \<noteq> Some ''pending''"
  by (simp add: initializeDB_def submitReport_def)

subsection \<open>C10: a bookmark on a post that does not exist\<close>

text \<open>
  C10. \<open>toggleBookmark\<close> never fails with \<open>NotFound\<close>: for every post id the call succeeds
  (and behind the ban gate, whose only failure is 403, the answer is not \<open>NotFound\<close> either).
  When the store has no post with the id and no bookmark of the pair, the call appends a
  bookmark with that post id and answers \<open>bookmarked: true\<close>, so the store it leaves holds a
  bookmark whose post id no post has.
\<close>

theorem toggleBookmark_no_NotFound:
  "(\<exists>b. fst (toggleBookmark pid userId now d) = Inr b) \<and>
   fst (toggleBookmark pid userId now d) \<noteq> Inl NotFound \<and>
   fst (checkBan banned userId (toggleBookmark pid userId now) d) \<noteq> Inl NotFound \<and>
   ((\<forall>p\<in>set (posts d). post_id p \<noteq> pid) \<and>
    (\<forall>b\<in>set (bookmarks d). \<not> isBookmarkOf pid userId b) \<longrightarrow>
      toggleBookmark pid userId now d =
        (Inr True, d\<lparr>bookmarks := bookmarks d @
           [\<lparr>bookmark_postId = pid, bookmark_userId = userId, bookmark_timestamp = now\<rparr>]\<rparr>) \<and>
      (\<exists>b\<in>set (bookmarks (snd (toggleBookmark pid userId now d))).
         bookmark_postId b = pid \<and>
         (\<forall>p\<in>set (posts (snd (toggleBookmark pid userId now d))). post_id p \<noteq> pid)))"
proof (intro conjI impI)
  show "\<exists>b. fst (toggleBookmark pid userId now d) = Inr b"
    by (cases "findIndex (isBookmarkOf pid userId) (bookmarks d)")
      (auto simp: toggleBookmark_def)
  show n: "fst (toggleBookmark pid userId now d) \<noteq> Inl NotFound"
    by (simp add: toggleBookmark_def split: option.split)
  show "fst (checkBan banned userId (toggleBookmark pid userId now) d) \<noteq> Inl NotFound"
    using n by (simp add: checkBan_def)
next
  assume a: "(\<forall>p\<in>set (posts d). post_id p \<noteq> pid) \<and>
    (\<forall>b\<in>set (bookmarks d). \<not> isBookmarkOf pid userId b)"
  then have n: "\<forall>b\<in>set (bookmarks d). \<not> isBookmarkOf pid userId b" by simp
  show e: "toggleBookmark pid userId now d =
        (Inr True, d\<lparr>bookmarks := bookmarks d @
           [\<lparr>bookmark_postId = pid, bookmark_userId = userId, bookmark_timestamp = now\<rparr>]\<rparr>)"
    using n by (rule toggleBookmark_insert)
  show "\<exists>b\<in>set (bookmarks (snd (toggleBookmark pid userId now d))).
         bookmark_postId b = pid \<and>
         (\<forall>p\<in>set (posts (snd (toggleBookmark pid userId now d))). post_id p \<noteq> pid)"
    unfolding e using a by simp
qed

text \<open>The theorem at the empty store.\<close>

theorem toggleBookmark_no_NotFound_witness:
  "toggleBookmark ''ghost'' ''u1'' ''t1'' initializeDB =
     (Inr True, (initializeDB\<lparr>bookmarks := [aBookmark ''ghost'' ''u1'' ''t1'']\<rparr>)) \<and>
   (\<exists>b\<in>set (bookmarks (snd (toggleBookmark ''ghost'' ''u1'' ''t1'' initializeDB))).
      bookmark_postId b = ''ghost'')"
  using toggleBookmark_no_NotFound [of "''ghost''" "''u1''" "''t1''" "initializeDB"]
  by (simp add: initializeDB_def toggleBookmark_def)

end
